theory Spec2Isabelle
  imports Main "HOL-Library.Word"
begin

text \<open>
  The two programs of the repository: the init process of the guest,
  src/init/init.c, with its parser of resource-limit directives \<^verbatim>\<open>set_rlimits\<close>, and the
  launcher on the host, src/examples/chroot_vm.c.  Both are sequences of calls into
  the C library, the kernel and libkrun.  The model keeps the calls a process issues,
  in order, and what it prints; the answers to the calls are a parameter.  Where the C
  program leaves the behaviour undefined (a read beyond a string, a write through a
  null pointer) the model stops with a result that says so.
\<close>

section \<open>C library routines called by the guest init (src/init/init.c)\<close>

text \<open>
  A C string is modelled by the list of its characters up to, and excluding, the
  terminating NUL.  A \<^verbatim>\<open>char *\<close> that walks through a string (\<^verbatim>\<open>item\<close> in
  \<^verbatim>\<open>set_rlimits\<close>) is modelled by the text that is still in front of it: the empty
  list means the pointer stands on the NUL.
\<close>

type_synonym u64 = "64 word"

definition ULLONG_MAX :: u64 where
  "ULLONG_MAX = 0xFFFFFFFFFFFFFFFF"

definition isspace_c :: "char \<Rightarrow> bool" where
  "isspace_c c = (c \<in> set [CHR '' '', CHR 0x09, CHR 0x0A, CHR 0x0B, CHR 0x0C, CHR 0x0D])"

definition isdigit_c :: "char \<Rightarrow> bool" where
  "isdigit_c c = (c \<in> set ''0123456789'')"

definition digit_val :: "char \<Rightarrow> int" where
  "digit_val c = of_char c - 48"

text \<open>
  \<^verbatim>\<open>strtoull(nptr, &endptr, 10)\<close> as ISO C 7.22.1.4 and glibc define it: white space
  is skipped, one sign is accepted, then the longest run of decimal digits is read.
  With no digit there is no conversion: the value is 0 and \<^verbatim>\<open>endptr\<close> is \<^verbatim>\<open>nptr\<close>
  itself.  A value that does not fit 64 bits gives \<^verbatim>\<open>ULLONG_MAX\<close>; a minus sign
  negates the value in 64-bit unsigned arithmetic.  The result is the value and the
  text left at \<^verbatim>\<open>endptr\<close>.  (\<^verbatim>\<open>errno\<close> is set on overflow; init.c never reads it.)
\<close>

definition strtoull :: "string \<Rightarrow> u64 \<times> string" where
  "strtoull nptr =
    (let s = dropWhile isspace_c nptr;
         neg = (s \<noteq> [] \<and> hd s = CHR ''-'');
         t = (if s \<noteq> [] \<and> (hd s = CHR ''-'' \<or> hd s = CHR ''+'') then tl s else s);
         ds = takeWhile isdigit_c t;
         v = foldl (\<lambda>a c. 10 * a + digit_val c) 0 ds
     in if ds = [] then (0, nptr)
        else if 2 ^ 64 \<le> v then (ULLONG_MAX, dropWhile isdigit_c t)
        else (if neg then - word_of_int v else word_of_int v, dropWhile isdigit_c t))"

lemma strtoull_length: "length (snd (strtoull s)) \<le> length s"
proof -
  let ?s = "dropWhile isspace_c s"
  let ?t = "if ?s \<noteq> [] \<and> (hd ?s = CHR ''-'' \<or> hd ?s = CHR ''+'') then tl ?s else ?s"
  have "length (dropWhile isdigit_c ?t) \<le> length ?t"
    by (rule length_dropWhile_le)
  also have "length ?t \<le> length ?s"
    by simp
  also have "length ?s \<le> length s"
    by (rule length_dropWhile_le)
  finally show ?thesis
    by (simp add: strtoull_def Let_def)
qed

lemma strtoull_consumed:
  "\<exists>pre. s = pre @ snd (strtoull s) \<and>
     list_all (\<lambda>c. isspace_c c \<or> c = CHR ''-'' \<or> c = CHR ''+'' \<or> isdigit_c c) pre"
proof -
  let ?ok = "\<lambda>c. isspace_c c \<or> c = CHR ''-'' \<or> c = CHR ''+'' \<or> isdigit_c c"
  let ?s = "dropWhile isspace_c s"
  let ?sign = "?s \<noteq> [] \<and> (hd ?s = CHR ''-'' \<or> hd ?s = CHR ''+'')"
  let ?t = "if ?sign then tl ?s else ?s"
  let ?ds = "takeWhile isdigit_c ?t"
  show ?thesis
  proof (cases "?ds = []")
    case True
    then have "snd (strtoull s) = s"
      by (simp add: strtoull_def Let_def)
    then show ?thesis
      by (intro exI [of _ "[]"]) simp
  next
    case False
    then have rest: "snd (strtoull s) = dropWhile isdigit_c ?t"
      by (simp add: strtoull_def Let_def)
    let ?sg = "if ?sign then [hd ?s] else []"
    let ?pre = "takeWhile isspace_c s @ ?sg @ ?ds"
    have "?s = ?sg @ ?t"
      by simp
    then have "s = takeWhile isspace_c s @ ?sg @ ?t"
      by (metis takeWhile_dropWhile_id)
    also have "?t = ?ds @ dropWhile isdigit_c ?t"
      by simp
    finally have split: "s = ?pre @ snd (strtoull s)"
      by (simp only: rest append_assoc)
    have "\<forall>c \<in> set (takeWhile isspace_c s). isspace_c c"
      by (meson set_takeWhileD)
    then have sp: "list_all ?ok (takeWhile isspace_c s)"
      by (simp add: list_all_iff)
    have "\<forall>c \<in> set ?ds. isdigit_c c"
      by (meson set_takeWhileD)
    then have dg: "list_all ?ok ?ds"
      by (simp add: list_all_iff)
    have sg: "list_all ?ok ?sg"
      by auto
    have "list_all ?ok ?pre"
      unfolding list_all_append using sp sg dg by blast
    with split show ?thesis
      by blast
  qed
qed

section \<open>Processes and the kernel\<close>

text \<open>
  The kernel is outside the program.  It is a parameter of the model: a function that
  gives the raw result of a system call from the calls issued so far and the call
  itself, 0 or more on success and \<open>- errno\<close> on failure, as the Linux system call
  interface does.  A process state keeps the calls it has issued in order, the C
  library's \<^verbatim>\<open>errno\<close>, and what it has written to the console.
\<close>

datatype diag = Printf string | Perror string int

record 'c proc =
  trace :: "'c list"
  errno :: int
  console :: "diag list"

definition proc0 :: "'c proc" where
  "proc0 = \<lparr>trace = [], errno = 0, console = []\<rparr>"

lemma proc0_simps: "trace proc0 = []" "errno proc0 = 0" "console proc0 = []"
  by (simp_all add: proc0_def)

definition printf :: "string \<Rightarrow> 'c proc \<Rightarrow> 'c proc" where
  "printf s p = p\<lparr>console := console p @ [Printf s]\<rparr>"

text \<open>\<^verbatim>\<open>perror(msg)\<close> prints \<^verbatim>\<open>msg\<close> and the text of the current \<^verbatim>\<open>errno\<close>.\<close>

definition perror :: "string \<Rightarrow> 'c proc \<Rightarrow> 'c proc" where
  "perror msg p = p\<lparr>console := console p @ [Perror msg (errno p)]\<rparr>"

text \<open>The C library's wrapper of a system call: a negative raw result \<open>- e\<close> becomes
  the return value \<open>-1\<close> with \<^verbatim>\<open>errno = e\<close>.\<close>

definition invoke :: "('c list \<Rightarrow> 'c \<Rightarrow> int) \<Rightarrow> 'c proc \<Rightarrow> 'c \<Rightarrow> int \<times> 'c proc" where
  "invoke k p c =
    (let r = k (trace p) c;
         p' = p\<lparr>trace := trace p @ [c]\<rparr>
     in if r < 0 then (- 1, p'\<lparr>errno := - r\<rparr>) else (r, p'))"

text \<open>\<^verbatim>\<open>%lld\<close>: a signed decimal numeral.\<close>

function dec_digits :: "int \<Rightarrow> string" where
  "dec_digits n =
    (if n < 10 then [char_of (48 + n)] else dec_digits (n div 10) @ [char_of (48 + n mod 10)])"
  by pat_completeness auto
termination
  by (relation "measure nat") auto

declare dec_digits.simps [simp del]

definition fmt_lld :: "int \<Rightarrow> string" where
  "fmt_lld i = (if i < 0 then CHR ''-'' # dec_digits (- i) else dec_digits i)"

section \<open>The guest init: \<^verbatim>\<open>set_rlimits\<close>\<close>

record rlimit =
  rlim_cur :: u64
  rlim_max :: u64

datatype mount_flag = MS_NODEV | MS_NOEXEC | MS_NOSUID | MS_RELATIME

datatype if_flag = IFF_UP

datatype sock_domain = AF_INET

datatype sock_type = SOCK_DGRAM

datatype ioctl_arg = TIOCSCTTY int | SIOCSIFFLAGS string "if_flag set"

text \<open>The system calls of init.c.  The resource of \<^verbatim>\<open>setrlimit\<close> is a 32-bit
  parameter; \<^verbatim>\<open>execv(path, argv)\<close> is \<^verbatim>\<open>execve\<close> with the process's own
  \<^verbatim>\<open>environ\<close>.\<close>

datatype syscall =
    Mount string string string "mount_flag set"
  | Symlink string string
  | Sethostname string nat
  | Setsid
  | Ioctl int ioctl_arg
  | Socket sock_domain sock_type int
  | Close int
  | Setrlimit "32 word" rlimit
  | Chdir string
  | Execve string "string list" "string list"

type_synonym kernel = "syscall list \<Rightarrow> syscall \<Rightarrow> int"

text \<open>
  Lines 28 to 39, the positional reading of one directive (the values line 28 gives
  the three variables are overwritten before they are read): \<^verbatim>\<open>id\<close>, one byte
  skipped, \<^verbatim>\<open>cur\<close>, one byte skipped, \<^verbatim>\<open>max\<close>.  The two \<^verbatim>\<open>item++\<close> of lines 36
  and 38 are not guarded: when \<^verbatim>\<open>item\<close> stands on the terminating NUL they move it
  beyond the string, and the \<^verbatim>\<open>strtoull\<close> that follows reads memory that is not
  part of it (\<open>Overrun\<close>).  \<open>Fields\<close> carries the three values and the text left
  after the third.
\<close>

datatype fields = Invalid_id | Overrun | Fields u64 u64 u64 string

definition rlimit_fields :: "string \<Rightarrow> fields" where
  "rlimit_fields item =
    (let (lim_id, item1) = strtoull item in
     if lim_id = ULLONG_MAX then Invalid_id
     else case item1 of
       [] \<Rightarrow> Overrun
     | _ # item2 \<Rightarrow>
        (let (lim_cur, item3) = strtoull item2 in
         case item3 of
           [] \<Rightarrow> Overrun
         | _ # item4 \<Rightarrow>
            (let (lim_max, item5) = strtoull item4 in Fields lim_id lim_cur lim_max item5)))"

text \<open>Lines 41 to 45: the call, and the log line when it does not return 0.\<close>

definition apply_rlimit :: "kernel \<Rightarrow> syscall proc \<Rightarrow> u64 \<Rightarrow> u64 \<Rightarrow> u64 \<Rightarrow> syscall proc" where
  "apply_rlimit k p lim_id lim_cur lim_max =
    (let rlim = \<lparr>rlim_cur = lim_cur, rlim_max = lim_max\<rparr>;
         (r, p1) = invoke k p (Setrlimit (ucast lim_id) rlim)
     in if r \<noteq> 0
        then printf (''Error setting rlimit for ID='' @ fmt_lld (sint lim_id) @ [CHR 0x0A]) p1
        else p1)"

text \<open>How one pass through the body of the \<^verbatim>\<open>while (1)\<close> loop ends: at the
  \<^verbatim>\<open>item++\<close> of line 48 with the text to go on with, at one of the two
  \<^verbatim>\<open>break\<close>s, or beyond the string.\<close>

datatype step = Continue string | Break | PastNul

definition rlimit_body :: "kernel \<Rightarrow> syscall proc \<Rightarrow> string \<Rightarrow> syscall proc \<times> step" where
  "rlimit_body k p item =
    (case rlimit_fields item of
       Invalid_id \<Rightarrow> (printf (''Invalid rlimit ID'' @ [CHR 0x0A]) p, Break)
     | Overrun \<Rightarrow> (p, PastNul)
     | Fields lim_id lim_cur lim_max item5 \<Rightarrow>
        (let p2 = apply_rlimit k p lim_id lim_cur lim_max
         in case item5 of
              [] \<Rightarrow> (p2, Break)
            | _ # item6 \<Rightarrow> (p2, Continue item6)))"

lemma rlimit_fields_consumed:
  assumes "rlimit_fields item = Fields a b c rest"
  shows "\<exists>used. item = used @ rest \<and> 2 \<le> length used"
proof -
  obtain a' i1 where s1: "strtoull item = (a', i1)"
    by (cases "strtoull item")
  from assms s1 obtain c1 i2 where i1: "i1 = c1 # i2"
    by (cases i1) (auto simp: rlimit_fields_def split: if_splits)
  obtain b' i3 where s2: "strtoull i2 = (b', i3)"
    by (cases "strtoull i2")
  from assms s1 i1 s2 obtain c2 i4 where i3: "i3 = c2 # i4"
    by (cases i3) (auto simp: rlimit_fields_def split: if_splits)
  from assms s1 i1 s2 i3 have s3: "snd (strtoull i4) = rest"
    by (auto simp: rlimit_fields_def split: if_splits prod.splits)
  obtain u1 where u1: "item = u1 @ c1 # i2"
    using strtoull_consumed [of item] s1 i1 by auto
  obtain u2 where u2: "i2 = u2 @ c2 # i4"
    using strtoull_consumed [of i2] s2 i3 by auto
  obtain u3 where u3: "i4 = u3 @ rest"
    using strtoull_consumed [of i4] s3 by auto
  have "item = (u1 @ c1 # u2 @ c2 # u3) @ rest"
    using u1 u2 u3 by simp
  moreover have "2 \<le> length (u1 @ c1 # u2 @ c2 # u3)"
    by simp
  ultimately show ?thesis
    by blast
qed

lemma rlimit_body_shorter:
  assumes "rlimit_body k p item = (p', Continue item')"
  shows "length item' < length item"
proof -
  from assms obtain a b c d where "rlimit_fields item = Fields a b c (d # item')"
    by (auto simp: rlimit_body_def Let_def split: fields.splits list.splits)
  then obtain used where "item = used @ d # item'"
    using rlimit_fields_consumed by blast
  then show ?thesis
    by simp
qed

datatype flow = Returned | ReadPastNul

function set_rlimits :: "kernel \<Rightarrow> syscall proc \<Rightarrow> string \<Rightarrow> syscall proc \<times> flow" where
  "set_rlimits k p item =
    (case rlimit_body k p item of
       (p', Continue item') \<Rightarrow> set_rlimits k p' item'
     | (p', Break) \<Rightarrow> (p', Returned)
     | (p', PastNul) \<Rightarrow> (p', ReadPastNul))"
  by pat_completeness auto
termination
  by (relation "measure (\<lambda>(k, p, item). length item)") (auto dest: rlimit_body_shorter [OF sym])

declare set_rlimits.simps [simp del]

lemma set_rlimits_invalid:
  "rlimit_fields item = Invalid_id \<Longrightarrow>
   set_rlimits k p item = (printf (''Invalid rlimit ID'' @ [CHR 0x0A]) p, Returned)"
  by (subst set_rlimits.simps) (simp add: rlimit_body_def)

lemma set_rlimits_overrun:
  "rlimit_fields item = Overrun \<Longrightarrow> set_rlimits k p item = (p, ReadPastNul)"
  by (subst set_rlimits.simps) (simp add: rlimit_body_def)

lemma set_rlimits_last:
  "rlimit_fields item = Fields a b c [] \<Longrightarrow>
   set_rlimits k p item = (apply_rlimit k p a b c, Returned)"
  by (subst set_rlimits.simps) (simp add: rlimit_body_def)

lemma set_rlimits_next:
  "rlimit_fields item = Fields a b c (d # rest) \<Longrightarrow>
   set_rlimits k p item = set_rlimits k (apply_rlimit k p a b c) rest"
  by (subst set_rlimits.simps) (simp add: rlimit_body_def)

lemma trace_apply_rlimit:
  "trace (apply_rlimit k p a b c) = trace p @ [Setrlimit (ucast a) \<lparr>rlim_cur = b, rlim_max = c\<rparr>]"
  by (simp add: apply_rlimit_def invoke_def printf_def Let_def)

subsection \<open>What the loop does to the process, whatever the kernel answers\<close>

text \<open>The loop only adds \<^verbatim>\<open>setrlimit\<close> calls to the calls issued and lines to the
  console.  Which calls it issues and how it ends depend on the text alone, not on
  the results of the calls.\<close>

lemma console_apply_rlimit:
  "console (apply_rlimit k p a b c) = console p @
     (if fst (invoke k p (Setrlimit (ucast a) \<lparr>rlim_cur = b, rlim_max = c\<rparr>)) \<noteq> 0
      then [Printf (''Error setting rlimit for ID='' @ fmt_lld (sint a) @ [CHR 0x0A])]
      else [])"
  by (simp add: apply_rlimit_def invoke_def printf_def Let_def)

lemma set_rlimits_extends:
  "\<exists>cs ls. trace (fst (set_rlimits k p s)) = trace p @ cs
      \<and> list_all (\<lambda>c. \<exists>r l. c = Setrlimit r l) cs
      \<and> console (fst (set_rlimits k p s)) = console p @ ls"
proof (induction s arbitrary: p rule: length_induct)
  case (1 s)
  show ?case
  proof (cases "rlimit_fields s")
    case Invalid_id
    then show ?thesis
      by (simp add: set_rlimits_invalid printf_def)
  next
    case Overrun
    then show ?thesis
      by (simp add: set_rlimits_overrun)
  next
    case (Fields a b c rest)
    let ?q = "apply_rlimit k p a b c"
    let ?call = "Setrlimit (ucast a) \<lparr>rlim_cur = b, rlim_max = c\<rparr>"
    obtain l1 where l1: "console ?q = console p @ l1"
      using console_apply_rlimit by blast
    show ?thesis
    proof (cases rest)
      case Nil
      with Fields have "set_rlimits k p s = (?q, Returned)"
        by (simp add: set_rlimits_last)
      then show ?thesis
        using l1 by (simp add: trace_apply_rlimit)
    next
      case (Cons d r)
      with Fields have eq: "set_rlimits k p s = set_rlimits k ?q r"
        by (simp add: set_rlimits_next)
      from Fields Cons have "length r < length s"
        using rlimit_fields_consumed [of s a b c rest] by auto
      with "1.IH" obtain cs ls where
        "trace (fst (set_rlimits k ?q r)) = trace ?q @ cs"
        "list_all (\<lambda>c. \<exists>r l. c = Setrlimit r l) cs"
        "console (fst (set_rlimits k ?q r)) = console ?q @ ls"
        by blast
      then have "trace (fst (set_rlimits k p s)) = trace p @ (?call # cs)"
        "list_all (\<lambda>c. \<exists>r l. c = Setrlimit r l) (?call # cs)"
        "console (fst (set_rlimits k p s)) = console p @ (l1 @ ls)"
        using eq l1 by (simp_all add: trace_apply_rlimit)
      then show ?thesis
        by blast
    qed
  qed
qed

lemma set_rlimits_flow_independent:
  "snd (set_rlimits k p s) = snd (set_rlimits k' p' s)"
proof (induction s arbitrary: p p' rule: length_induct)
  case (1 s)
  show ?case
  proof (cases "rlimit_fields s")
    case Invalid_id
    then show ?thesis
      by (simp add: set_rlimits_invalid)
  next
    case Overrun
    then show ?thesis
      by (simp add: set_rlimits_overrun)
  next
    case (Fields a b c rest)
    show ?thesis
    proof (cases rest)
      case Nil
      with Fields show ?thesis
        by (simp add: set_rlimits_last)
    next
      case (Cons d r)
      with Fields have "length r < length s"
        using rlimit_fields_consumed [of s a b c rest] by auto
      with "1.IH" have "snd (set_rlimits k (apply_rlimit k p a b c) r)
          = snd (set_rlimits k' (apply_rlimit k' p' a b c) r)"
        by blast
      with Fields Cons show ?thesis
        by (simp add: set_rlimits_next)
    qed
  qed
qed

lemma set_rlimits_calls_independent:
  "drop (length (trace p)) (trace (fst (set_rlimits k p s)))
     = drop (length (trace p')) (trace (fst (set_rlimits k' p' s)))"
proof (induction s arbitrary: p p' rule: length_induct)
  case (1 s)
  show ?case
  proof (cases "rlimit_fields s")
    case Invalid_id
    then show ?thesis
      by (simp add: set_rlimits_invalid printf_def)
  next
    case Overrun
    then show ?thesis
      by (simp add: set_rlimits_overrun)
  next
    case (Fields a b c rest)
    let ?q = "apply_rlimit k p a b c"
    let ?q' = "apply_rlimit k' p' a b c"
    let ?call = "Setrlimit (ucast a) \<lparr>rlim_cur = b, rlim_max = c\<rparr>"
    show ?thesis
    proof (cases rest)
      case Nil
      with Fields show ?thesis
        by (simp add: set_rlimits_last trace_apply_rlimit)
    next
      case (Cons d r)
      with Fields have "length r < length s"
        using rlimit_fields_consumed [of s a b c rest] by auto
      with "1.IH" have ih: "drop (length (trace ?q)) (trace (fst (set_rlimits k ?q r)))
          = drop (length (trace ?q')) (trace (fst (set_rlimits k' ?q' r)))"
        by blast
      obtain cs where cs: "trace (fst (set_rlimits k ?q r)) = trace ?q @ cs"
        using set_rlimits_extends by blast
      obtain cs' where cs': "trace (fst (set_rlimits k' ?q' r)) = trace ?q' @ cs'"
        using set_rlimits_extends by blast
      from ih cs cs' have "cs = cs'"
        by simp
      with cs cs' Fields Cons show ?thesis
        by (simp add: set_rlimits_next trace_apply_rlimit)
    qed
  qed
qed

subsection \<open>A run of directives\<close>

text \<open>\<open>directives_then s ds r\<close>: from the text \<open>s\<close> the loop reads the directives
  \<open>ds\<close> one after the other, each with a byte after it that line 48 skips, and then
  stands at the text \<open>r\<close>.  \<open>apply_all\<close> is lines 41 to 45 for each of them in turn.\<close>

definition setrlimit_of :: "u64 \<times> u64 \<times> u64 \<Rightarrow> syscall" where
  "setrlimit_of d = (case d of (a, b, c) \<Rightarrow> Setrlimit (ucast a) \<lparr>rlim_cur = b, rlim_max = c\<rparr>)"

fun directives_then :: "string \<Rightarrow> (u64 \<times> u64 \<times> u64) list \<Rightarrow> string \<Rightarrow> bool" where
  "directives_then s [] r = (s = r)"
| "directives_then s (d # ds) r =
    (case rlimit_fields s of
       Fields a b c (_ # s') \<Rightarrow> d = (a, b, c) \<and> directives_then s' ds r
     | _ \<Rightarrow> False)"

fun apply_all :: "kernel \<Rightarrow> syscall proc \<Rightarrow> (u64 \<times> u64 \<times> u64) list \<Rightarrow> syscall proc" where
  "apply_all k p [] = p"
| "apply_all k p ((a, b, c) # ds) = apply_all k (apply_rlimit k p a b c) ds"

text \<open>The decimal text of a 64-bit value, and the format
  \<^verbatim>\<open>id=soft:hard[;id=soft:hard...]\<close> of a list of directives.\<close>

definition render_u64 :: "u64 \<Rightarrow> string" where
  "render_u64 w = dec_digits (uint w)"

definition render_directive :: "u64 \<times> u64 \<times> u64 \<Rightarrow> string" where
  "render_directive d =
    (case d of (a, b, c) \<Rightarrow> render_u64 a @ ''='' @ render_u64 b @ '':'' @ render_u64 c)"

fun wire_format :: "(u64 \<times> u64 \<times> u64) list \<Rightarrow> string" where
  "wire_format [] = []"
| "wire_format [d] = render_directive d"
| "wire_format (d # ds) = render_directive d @ '';'' @ wire_format ds"

lemma trace_apply_all: "trace (apply_all k p ds) = trace p @ map setrlimit_of ds"
  by (induction k p ds rule: apply_all.induct) (simp_all add: trace_apply_rlimit setrlimit_of_def)

lemma set_rlimits_directives_then:
  "directives_then s ds r \<Longrightarrow> set_rlimits k p s = set_rlimits k (apply_all k p ds) r"
proof (induction ds arbitrary: s p)
  case Nil
  then show ?case by simp
next
  case (Cons d ds)
  obtain a b c where d: "d = (a, b, c)"
    by (cases d)
  from Cons.prems d obtain x s' where f: "rlimit_fields s = Fields a b c (x # s')"
    and rest: "directives_then s' ds r"
    by (auto split: fields.splits list.splits)
  have "set_rlimits k p s = set_rlimits k (apply_rlimit k p a b c) s'"
    by (rule set_rlimits_next [OF f])
  also have "\<dots> = set_rlimits k (apply_all k (apply_rlimit k p a b c) ds) r"
    by (rule Cons.IH [OF rest])
  finally show ?case
    by (simp add: d)
qed

lemma rlimit_fields_invalid_iff:
  "(rlimit_fields s = Invalid_id) = (fst (strtoull s) = ULLONG_MAX)"
  by (auto simp: rlimit_fields_def Let_def split: prod.splits list.splits if_splits)

section \<open>The guest init: \<^verbatim>\<open>main\<close>\<close>

definition DEFAULT_KRUN_INIT :: string where
  "DEFAULT_KRUN_INIT = ''/iwasm''"

text \<open>The environment is the list of its \<^verbatim>\<open>NAME=value\<close> strings; \<^verbatim>\<open>getenv\<close> gives
  the value of the first entry with the name.\<close>

fun getenv :: "string list \<Rightarrow> string \<Rightarrow> string option" where
  "getenv [] name = None"
| "getenv (e # es) name =
    (if take (Suc (length name)) e = name @ ''=''
     then Some (drop (Suc (length name)) e)
     else getenv es name)"

text \<open>
  How the process ends: \<^verbatim>\<open>exit(n)\<close> or \<^verbatim>\<open>return n\<close> from \<^verbatim>\<open>main\<close>; its image
  replaced by the program, the argument vector and the environment given to
  \<^verbatim>\<open>execve\<close>; or a fault.  \<open>String_overrun\<close> is \<^verbatim>\<open>set_rlimits\<close> reading beyond its
  string.  \<open>Argv_overrun\<close> is the case \<^verbatim>\<open>argc = 0\<close>: \<^verbatim>\<open>argv[0]\<close> is then the null
  pointer that ends the vector, line 111 overwrites it, and \<^verbatim>\<open>execv\<close> is given a
  vector with no end.
\<close>

datatype fault = String_overrun | Argv_overrun

datatype outcome = Exit int | Replaced string "string list" "string list" | Fault fault

text \<open>The exit status a parent sees is the low byte of the value.\<close>

definition exit_status :: "int \<Rightarrow> int" where
  "exit_status n = n mod 256"

text \<open>Lines 69 and 70.\<close>

definition proc_mount :: syscall where
  "proc_mount = Mount ''proc'' ''/proc'' ''proc'' {MS_NODEV, MS_NOEXEC, MS_NOSUID, MS_RELATIME}"

definition mount_proc :: "kernel \<Rightarrow> syscall proc \<Rightarrow> int \<times> syscall proc" where
  "mount_proc k p = invoke k p proc_mount"

text \<open>Line 77; the result is not looked at.\<close>

definition link_fd :: "kernel \<Rightarrow> syscall proc \<Rightarrow> syscall proc" where
  "link_fd k p = snd (invoke k p (Symlink ''/proc/self/fd'' ''/dev/fd''))"

text \<open>Lines 79 to 82.\<close>

definition apply_hostname :: "kernel \<Rightarrow> string list \<Rightarrow> syscall proc \<Rightarrow> syscall proc" where
  "apply_hostname k env p =
    (case getenv env ''HOSTNAME'' of
       None \<Rightarrow> p
     | Some hostname \<Rightarrow> snd (invoke k p (Sethostname hostname (length hostname))))"

text \<open>Lines 84 and 85.\<close>

definition take_tty :: "kernel \<Rightarrow> syscall proc \<Rightarrow> syscall proc" where
  "take_tty k p = snd (invoke k (snd (invoke k p Setsid)) (Ioctl 0 (TIOCSCTTY 1)))"

text \<open>Lines 87 to 94.\<close>

definition loopback_up :: "kernel \<Rightarrow> syscall proc \<Rightarrow> syscall proc" where
  "loopback_up k p =
    (let (sockfd, p1) = invoke k p (Socket AF_INET SOCK_DGRAM 0)
     in if 0 \<le> sockfd
        then snd (invoke k (snd (invoke k p1 (Ioctl sockfd (SIOCSIFFLAGS ''lo'' {IFF_UP}))))
                    (Close sockfd))
        else p1)"

text \<open>Lines 96 to 99.\<close>

definition apply_rlimits :: "kernel \<Rightarrow> string list \<Rightarrow> syscall proc \<Rightarrow> syscall proc \<times> flow" where
  "apply_rlimits k env p =
    (case getenv env ''KRUN_RLIMITS'' of
       None \<Rightarrow> (p, Returned)
     | Some rlimits \<Rightarrow> set_rlimits k p rlimits)"

text \<open>Lines 101 to 104.\<close>

definition change_dir :: "kernel \<Rightarrow> string list \<Rightarrow> syscall proc \<Rightarrow> syscall proc" where
  "change_dir k env p =
    (case getenv env ''KRUN_WORKDIR'' of
       None \<Rightarrow> p
     | Some workdir \<Rightarrow> snd (invoke k p (Chdir workdir)))"

text \<open>Lines 107 to 110.\<close>

definition resolve_init :: "string list \<Rightarrow> string" where
  "resolve_init env =
    (case getenv env ''KRUN_INIT'' of
       None \<Rightarrow> DEFAULT_KRUN_INIT
     | Some krun_init \<Rightarrow> krun_init)"

text \<open>Lines 111 to 115.  \<^verbatim>\<open>execv\<close> comes back only when it has failed, and \<^verbatim>\<open>main\<close>
  then returns 0.\<close>

definition exec_init :: "kernel \<Rightarrow> string list \<Rightarrow> string list \<Rightarrow> syscall proc \<Rightarrow> syscall proc \<times> outcome" where
  "exec_init k env argv p =
    (case argv of
       [] \<Rightarrow> (p, Fault Argv_overrun)
     | _ # args \<Rightarrow>
        (let krun_init = resolve_init env;
             argv' = krun_init # args;
             (r, p') = invoke k p (Execve krun_init argv' env)
         in if r < 0 then (p', Exit 0) else (p', Replaced krun_init argv' env)))"

text \<open>Lines 77 to 94, the steps between the mount and the resource limits.\<close>

definition early_setup :: "kernel \<Rightarrow> string list \<Rightarrow> syscall proc \<Rightarrow> syscall proc" where
  "early_setup k env p = loopback_up k (take_tty k (apply_hostname k env (link_fd k p)))"

text \<open>\<^verbatim>\<open>main\<close>, from a fresh process with the environment \<open>env\<close> and the argument
  vector \<open>argv\<close>.\<close>

definition init_main :: "kernel \<Rightarrow> string list \<Rightarrow> string list \<Rightarrow> syscall proc \<times> outcome" where
  "init_main k env argv =
    (let (r, p1) = mount_proc k proc0 in
     if r < 0 then (perror ''mount(/proc)'' p1, Exit (- 1))
     else
       (let p2 = early_setup k env p1;
            (p3, fl) = apply_rlimits k env p2
        in case fl of
             ReadPastNul \<Rightarrow> (p3, Fault String_overrun)
           | Returned \<Rightarrow> exec_init k env argv (change_dir k env p3)))"

text \<open>The text of \<^verbatim>\<open>KRUN_RLIMITS\<close> keeps \<^verbatim>\<open>set_rlimits\<close> inside the string.  By
  \<open>set_rlimits_flow_independent\<close> the kernel and the process state chosen here do not
  matter.\<close>

definition stays_in_string :: "string \<Rightarrow> bool" where
  "stays_in_string s = (snd (set_rlimits (\<lambda>tr c. 0) proc0 s) = Returned)"

definition rlimits_in_bounds :: "string list \<Rightarrow> bool" where
  "rlimits_in_bounds env =
    (case getenv env ''KRUN_RLIMITS'' of None \<Rightarrow> True | Some s \<Rightarrow> stays_in_string s)"

subsection \<open>The steps of \<^verbatim>\<open>main\<close>, one by one\<close>

lemma trace_invoke: "trace (snd (invoke k p c)) = trace p @ [c]"
  by (simp add: invoke_def Let_def)

lemma console_invoke: "console (snd (invoke k p c)) = console p"
  by (simp add: invoke_def Let_def)

lemma fst_invoke_neg: "(fst (invoke k p c) < 0) = (k (trace p) c < 0)"
  by (simp add: invoke_def Let_def)

lemma trace_link_fd: "trace (link_fd k p) = trace p @ [Symlink ''/proc/self/fd'' ''/dev/fd'']"
  by (simp add: link_fd_def trace_invoke)

lemma trace_apply_hostname:
  "trace (apply_hostname k env p) = trace p @
     (case getenv env ''HOSTNAME'' of None \<Rightarrow> [] | Some h \<Rightarrow> [Sethostname h (length h)])"
  by (simp add: apply_hostname_def trace_invoke split: option.splits)

lemma trace_take_tty: "trace (take_tty k p) = trace p @ [Setsid, Ioctl 0 (TIOCSCTTY 1)]"
  by (simp add: take_tty_def trace_invoke)

lemma trace_loopback_up:
  "\<exists>fd. trace (loopback_up k p) = trace p @ [Socket AF_INET SOCK_DGRAM 0]
       \<or> trace (loopback_up k p) = trace p @
            [Socket AF_INET SOCK_DGRAM 0, Ioctl fd (SIOCSIFFLAGS ''lo'' {IFF_UP}), Close fd]"
  by (simp add: loopback_up_def trace_invoke split_beta)

lemma trace_change_dir:
  "trace (change_dir k env p) = trace p @
     (case getenv env ''KRUN_WORKDIR'' of None \<Rightarrow> [] | Some w \<Rightarrow> [Chdir w])"
  by (simp add: change_dir_def trace_invoke split: option.splits)

lemma console_steps:
  "console (link_fd k p) = console p"
  "console (apply_hostname k env p) = console p"
  "console (take_tty k p) = console p"
  "console (loopback_up k p) = console p"
  "console (change_dir k env p) = console p"
  by (simp_all add: link_fd_def apply_hostname_def take_tty_def loopback_up_def change_dir_def
      console_invoke split_beta split: option.splits)

lemma exec_init_cons:
  "exec_init k env (a # args) p =
    (snd (invoke k p (Execve (resolve_init env) (resolve_init env # args) env)),
     if k (trace p) (Execve (resolve_init env) (resolve_init env # args) env) < 0
     then Exit 0
     else Replaced (resolve_init env) (resolve_init env # args) env)"
  by (simp add: exec_init_def Let_def split_beta fst_invoke_neg)

lemma init_main_mount_failed:
  assumes "k [] proc_mount < 0"
  shows "init_main k env argv =
    (\<lparr>trace = [proc_mount], errno = - k [] proc_mount,
      console = [Perror ''mount(/proc)'' (- k [] proc_mount)]\<rparr>, Exit (- 1))"
  using assms
  by (simp add: init_main_def mount_proc_def invoke_def proc0_def perror_def Let_def)

lemma init_main_mounted:
  assumes "0 \<le> k [] proc_mount"
  shows "init_main k env argv =
    (case apply_rlimits k env (early_setup k env (snd (mount_proc k proc0))) of
       (p3, ReadPastNul) \<Rightarrow> (p3, Fault String_overrun)
     | (p3, Returned) \<Rightarrow> exec_init k env argv (change_dir k env p3))"
proof -
  have "\<not> fst (mount_proc k proc0) < 0"
    using assms by (simp add: mount_proc_def fst_invoke_neg proc0_def)
  then show ?thesis
    by (simp add: init_main_def Let_def split_beta split: flow.splits)
qed

lemma apply_rlimits_in_bounds:
  assumes "rlimits_in_bounds env"
  shows "snd (apply_rlimits k env p) = Returned"
proof (cases "getenv env ''KRUN_RLIMITS''")
  case None
  then show ?thesis
    by (simp add: apply_rlimits_def)
next
  case (Some s)
  with assms have "snd (set_rlimits (\<lambda>tr c. 0) proc0 s) = Returned"
    by (simp add: rlimits_in_bounds_def stays_in_string_def)
  then have "snd (set_rlimits k p s) = Returned"
    using set_rlimits_flow_independent [of k p s "\<lambda>tr c. 0" proc0] by simp
  with Some show ?thesis
    by (simp add: apply_rlimits_def)
qed

lemma init_main_reaches_exec:
  assumes "0 \<le> k [] proc_mount" and "rlimits_in_bounds env"
  shows "init_main k env argv = exec_init k env argv
     (change_dir k env (fst (apply_rlimits k env (early_setup k env (snd (mount_proc k proc0))))))"
  using apply_rlimits_in_bounds [OF assms(2), of k "early_setup k env (snd (mount_proc k proc0))"]
    assms(1)
  by (simp add: init_main_mounted split_beta)


lemma trace_early_setup:
  "\<exists>L. trace (early_setup k env p) = trace p @ Symlink ''/proc/self/fd'' ''/dev/fd''
        # (case getenv env ''HOSTNAME'' of None \<Rightarrow> [] | Some h \<Rightarrow> [Sethostname h (length h)])
        @ [Setsid, Ioctl 0 (TIOCSCTTY 1)] @ L
      \<and> list_all (\<lambda>c. c = Socket AF_INET SOCK_DGRAM 0
            \<or> (\<exists>fd. c = Ioctl fd (SIOCSIFFLAGS ''lo'' {IFF_UP}) \<or> c = Close fd)) L"
proof -
  let ?p = "take_tty k (apply_hostname k env (link_fd k p))"
  from trace_loopback_up [of k ?p] obtain L where
    "trace (loopback_up k ?p) = trace ?p @ L"
    "list_all (\<lambda>c. c = Socket AF_INET SOCK_DGRAM 0
            \<or> (\<exists>fd. c = Ioctl fd (SIOCSIFFLAGS ''lo'' {IFF_UP}) \<or> c = Close fd)) L"
    by auto
  then show ?thesis
    by (auto simp: early_setup_def trace_take_tty trace_apply_hostname trace_link_fd)
qed

lemma init_main_trace_cases:
  assumes "0 \<le> k [] proc_mount"
  shows "trace (fst (init_main k env argv))
        = trace (fst (apply_rlimits k env (early_setup k env (snd (mount_proc k proc0)))))
      \<or> trace (fst (init_main k env argv))
        = trace (change_dir k env (fst (apply_rlimits k env (early_setup k env (snd (mount_proc k proc0))))))
      \<or> (\<exists>args. trace (fst (init_main k env argv))
        = trace (change_dir k env (fst (apply_rlimits k env (early_setup k env (snd (mount_proc k proc0))))))
            @ [Execve (resolve_init env) (resolve_init env # args) env])"
proof -
  let ?p2 = "early_setup k env (snd (mount_proc k proc0))"
  obtain p3 fl where ar: "apply_rlimits k env ?p2 = (p3, fl)"
    by (cases "apply_rlimits k env ?p2")
  have m: "init_main k env argv =
    (case fl of ReadPastNul \<Rightarrow> (p3, Fault String_overrun)
     | Returned \<Rightarrow> exec_init k env argv (change_dir k env p3))"
    using assms ar by (simp add: init_main_mounted split: flow.splits)
  show ?thesis
  proof (cases fl)
    case ReadPastNul
    with m ar show ?thesis
      by simp
  next
    case Returned
    show ?thesis
    proof (cases argv)
      case Nil
      with m ar Returned show ?thesis
        by (simp add: exec_init_def)
    next
      case (Cons a args)
      with m ar Returned show ?thesis
        by (simp add: exec_init_cons trace_invoke)
    qed
  qed
qed

lemma early_setup_calls:
  assumes "c \<in> set (trace (early_setup k env (snd (mount_proc k proc0))))"
  shows "c = proc_mount \<or> c = Symlink ''/proc/self/fd'' ''/dev/fd''
    \<or> (\<exists>h. getenv env ''HOSTNAME'' = Some h \<and> c = Sethostname h (length h))
    \<or> c = Setsid \<or> c = Ioctl 0 (TIOCSCTTY 1) \<or> c = Socket AF_INET SOCK_DGRAM 0
    \<or> (\<exists>fd. c = Ioctl fd (SIOCSIFFLAGS ''lo'' {IFF_UP}) \<or> c = Close fd)"
proof -
  let ?p1 = "snd (mount_proc k proc0)"
  let ?H = "case getenv env ''HOSTNAME'' of None \<Rightarrow> [] | Some h \<Rightarrow> [Sethostname h (length h)]"
  have t1: "trace ?p1 = [proc_mount]"
    by (simp add: mount_proc_def trace_invoke proc0_def)
  obtain L where
    t2: "trace (early_setup k env ?p1) = trace ?p1 @ Symlink ''/proc/self/fd'' ''/dev/fd'' # ?H
        @ [Setsid, Ioctl 0 (TIOCSCTTY 1)] @ L"
    and L: "list_all (\<lambda>c. c = Socket AF_INET SOCK_DGRAM 0
            \<or> (\<exists>fd. c = Ioctl fd (SIOCSIFFLAGS ''lo'' {IFF_UP}) \<or> c = Close fd)) L"
    using trace_early_setup [of k env ?p1] by (elim exE conjE) (rule that; assumption)
  from assms have "c = proc_mount \<or> c = Symlink ''/proc/self/fd'' ''/dev/fd'' \<or> c \<in> set ?H
      \<or> c = Setsid \<or> c = Ioctl 0 (TIOCSCTTY 1) \<or> c \<in> set L"
    unfolding t2 t1 by simp blast
  moreover have "c \<in> set ?H \<Longrightarrow> \<exists>h. getenv env ''HOSTNAME'' = Some h \<and> c = Sethostname h (length h)"
    by (cases "getenv env ''HOSTNAME''") simp_all
  moreover have "c \<in> set L \<Longrightarrow> c = Socket AF_INET SOCK_DGRAM 0
      \<or> (\<exists>fd. c = Ioctl fd (SIOCSIFFLAGS ''lo'' {IFF_UP}) \<or> c = Close fd)"
    using L by (simp add: list_all_iff)
  ultimately show ?thesis
    by argo
qed

lemma apply_rlimits_calls:
  assumes "c \<in> set (trace (fst (apply_rlimits k env p)))"
  shows "c \<in> set (trace p) \<or> (\<exists>s r l. getenv env ''KRUN_RLIMITS'' = Some s \<and> c = Setrlimit r l)"
proof (cases "getenv env ''KRUN_RLIMITS''")
  case None
  with assms show ?thesis
    by (simp add: apply_rlimits_def)
next
  case (Some s)
  obtain cs where cs: "trace (fst (set_rlimits k p s)) = trace p @ cs"
    and all: "list_all (\<lambda>c. \<exists>r l. c = Setrlimit r l) cs"
    using set_rlimits_extends [of k p s] by (elim exE conjE) (rule that; assumption)
  from assms Some cs have "c \<in> set (trace p) \<or> c \<in> set cs"
    by (simp add: apply_rlimits_def)
  moreover have "c \<in> set cs \<Longrightarrow> \<exists>r l. c = Setrlimit r l"
    using all by (simp add: list_all_iff)
  ultimately show ?thesis
    using Some by blast
qed

lemma change_dir_calls:
  assumes "c \<in> set (trace (change_dir k env p))"
  shows "c \<in> set (trace p) \<or> (\<exists>w. getenv env ''KRUN_WORKDIR'' = Some w \<and> c = Chdir w)"
  using assms by (cases "getenv env ''KRUN_WORKDIR''") (auto simp add: trace_change_dir)

text \<open>Every call \<^verbatim>\<open>main\<close> can issue, by the step it comes from.\<close>

lemma init_main_calls:
  assumes "c \<in> set (trace (fst (init_main k env argv)))"
  shows "c = proc_mount \<or> c = Symlink ''/proc/self/fd'' ''/dev/fd''
    \<or> (\<exists>h. getenv env ''HOSTNAME'' = Some h \<and> c = Sethostname h (length h))
    \<or> c = Setsid \<or> c = Ioctl 0 (TIOCSCTTY 1) \<or> c = Socket AF_INET SOCK_DGRAM 0
    \<or> (\<exists>fd. c = Ioctl fd (SIOCSIFFLAGS ''lo'' {IFF_UP}) \<or> c = Close fd)
    \<or> (\<exists>s r l. getenv env ''KRUN_RLIMITS'' = Some s \<and> c = Setrlimit r l)
    \<or> (\<exists>w. getenv env ''KRUN_WORKDIR'' = Some w \<and> c = Chdir w)
    \<or> (\<exists>args. c = Execve (resolve_init env) (resolve_init env # args) env)"
proof (cases "k [] proc_mount < 0")
  case True
  with assms have "c = proc_mount"
    by (simp add: init_main_mount_failed)
  then show ?thesis
    by (rule disjI1)
next
  case False
  then have m: "0 \<le> k [] proc_mount"
    by simp
  let ?p2 = "early_setup k env (snd (mount_proc k proc0))"
  let ?p3 = "fst (apply_rlimits k env ?p2)"
  let ?p4 = "change_dir k env ?p3"
  let ?X = "\<exists>args. c = Execve (resolve_init env) (resolve_init env # args) env"
  have "c \<in> set (trace ?p3) \<or> c \<in> set (trace ?p4) \<or> ?X"
    using init_main_trace_cases [of k env argv, OF m]
  proof (elim disjE exE)
    assume "trace (fst (init_main k env argv)) = trace ?p3"
    with assms show ?thesis
      by simp
  next
    assume "trace (fst (init_main k env argv)) = trace ?p4"
    with assms show ?thesis
      by simp
  next
    fix args
    assume "trace (fst (init_main k env argv))
        = trace ?p4 @ [Execve (resolve_init env) (resolve_init env # args) env]"
    with assms have "c \<in> set (trace ?p4)
        \<or> c = Execve (resolve_init env) (resolve_init env # args) env"
      by simp blast
    then show ?thesis
      by blast
  qed
  then have "c \<in> set (trace ?p3)
      \<or> (\<exists>w. getenv env ''KRUN_WORKDIR'' = Some w \<and> c = Chdir w) \<or> ?X"
    using change_dir_calls [of c k env ?p3] by blast
  then have "c \<in> set (trace ?p2)
      \<or> (\<exists>s r l. getenv env ''KRUN_RLIMITS'' = Some s \<and> c = Setrlimit r l)
      \<or> (\<exists>w. getenv env ''KRUN_WORKDIR'' = Some w \<and> c = Chdir w) \<or> ?X"
    using apply_rlimits_calls [of c k env ?p2] by blast
  then show ?thesis
    using early_setup_calls [of c k env] by blast
qed

text \<open>A kernel on which \<^verbatim>\<open>mount\<close> succeeds and \<^verbatim>\<open>execve\<close> fails with \<^verbatim>\<open>ENOENT\<close>
  (2); every other call is answered as \<open>k\<close> answers it.\<close>

definition exec_enoent :: "kernel \<Rightarrow> kernel" where
  "exec_enoent k tr c =
    (case c of Execve path argv env \<Rightarrow> - 2 | Mount src dst fs fl \<Rightarrow> 0 | _ \<Rightarrow> k tr c)"


section \<open>The host launcher: \<^verbatim>\<open>main\<close> of src/examples/chroot_vm.c\<close>

text \<open>
  The calls of the launcher: the libkrun API, \<^verbatim>\<open>getcwd\<close> and \<^verbatim>\<open>malloc\<close>.  libkrun is
  outside src/; like the kernel of the guest it is a parameter of the model.
  An API function returns 0 (\<^verbatim>\<open>krun_create_ctx\<close>: the context id) or a negative
  error number.  \<^verbatim>\<open>krun_start_enter\<close> does not return when the microVM starts.
\<close>

datatype hcall =
    Krun_set_log_level int
  | Krun_create_ctx
  | Krun_set_vm_config int int int
  | Krun_set_root int string
  | Getcwd nat
  | Malloc nat
  | Krun_set_mapped_volumes int "string list"
  | Krun_set_port_map int "string list"
  | Krun_set_rlimits int "string list"
  | Krun_set_workdir int string
  | Krun_set_exec int string "string list" "string list"
  | Krun_start_enter int

record host =
  krun :: "hcall list \<Rightarrow> hcall \<Rightarrow> int"
  cwd :: "hcall list \<Rightarrow> string option"
  malloc_ok :: "hcall list \<Rightarrow> nat \<Rightarrow> bool"
  enters :: "hcall list \<Rightarrow> bool"

text \<open>\<open>Null_write\<close>: \<^verbatim>\<open>snprintf\<close> writing through the null pointer that \<^verbatim>\<open>malloc\<close>
  returned.\<close>

datatype houtcome = Return int | Entered | Null_write

definition MAX_PATH :: nat where
  "MAX_PATH = 4096"

definition volume_tail :: string where
  "volume_tail = '':/work''"

definition api :: "host \<Rightarrow> hcall proc \<Rightarrow> hcall \<Rightarrow> int \<times> hcall proc" where
  "api h p c = (krun h (trace p) c, p\<lparr>trace := trace p @ [c]\<rparr>)"

text \<open>The error branch every step but one has:
  \<^verbatim>\<open>errno = -err; perror(msg); return -1;\<close>\<close>

definition fail :: "string \<Rightarrow> int \<Rightarrow> hcall proc \<Rightarrow> hcall proc \<times> houtcome" where
  "fail msg err p = (perror msg (p\<lparr>errno := - err\<rparr>), Return (- 1))"

text \<open>Lines 226 to 230; glibc prints \<^verbatim>\<open>(null)\<close> for a null \<^verbatim>\<open>%s\<close>.\<close>

definition usage :: "string list \<Rightarrow> hcall proc \<Rightarrow> hcall proc" where
  "usage argv p =
    printf (''Usage: '' @ (case argv of [] \<Rightarrow> ''(null)'' | a # _ \<Rightarrow> a)
              @ '' NEWROOT COMMAND [ARG...]'' @ [CHR 0x0A])
      (printf (''Invalid arguments'' @ [CHR 0x0A]) p)"

text \<open>Lines 279 to 324, from \<^verbatim>\<open>krun_set_mapped_volumes\<close> on; \<open>err\<close> is not needed
  from before, every step assigns it.\<close>

definition configure_rest :: "host \<Rightarrow> string list \<Rightarrow> int \<Rightarrow> string \<Rightarrow> hcall proc \<Rightarrow> hcall proc \<times> houtcome" where
  "configure_rest h argv ctx_id volume p =
    (let (err, p1) = api h p (Krun_set_mapped_volumes ctx_id [volume]) in
     if err \<noteq> 0 then fail ''Error configuring mapped volumes'' err p1
     else let (err, p2) = api h p1 (Krun_set_port_map ctx_id [''18000:8000'']) in
     if err \<noteq> 0 then fail ''Error configuring port map'' err p2
     else let (err, p3) = api h p2 (Krun_set_rlimits ctx_id [''6=4096:8192'']) in
     if err \<noteq> 0 then fail ''Error configuring rlimits'' err p3
     else let (err, p4) = api h p3 (Krun_set_workdir ctx_id ''/'') in
     if err \<noteq> 0 then fail (''Error configuring '' @ [CHR 0x22] @ ''/'' @ [CHR 0x22] @ '' as working directory'') err p4
     else let (err, p5) = api h p4 (Krun_set_exec ctx_id (argv ! 2) (drop 3 argv) [''TEST=works'']) in
     if err \<noteq> 0 then fail ''Error configuring the parameters for the executable to be run'' err p5
     else if enters h (trace p5) then (p5\<lparr>trace := trace p5 @ [Krun_start_enter ctx_id]\<rparr>, Entered)
     else let (err, p6) = api h p5 (Krun_start_enter ctx_id) in
     if err \<noteq> 0 then fail ''Error creating the microVM'' err p6
     else (p6, Return 0))"

text \<open>Lines 226 to 277.  After a failed \<^verbatim>\<open>malloc\<close> (lines 270 to 273) the message is
  printed but there is no \<^verbatim>\<open>return\<close>: line 275 follows.\<close>

definition chroot_vm_main :: "host \<Rightarrow> string list \<Rightarrow> hcall proc \<times> houtcome" where
  "chroot_vm_main h argv =
    (if length argv < 3 then (usage argv proc0, Return (- 1))
     else let (err, p1) = api h proc0 (Krun_set_log_level 0) in
     if err \<noteq> 0 then fail ''Error configuring log level'' err p1
     else let (ctx_id, p2) = api h p1 Krun_create_ctx in
     if ctx_id < 0 then fail ''Error creating configuration context'' err p2
     else let (err, p3) = api h p2 (Krun_set_vm_config ctx_id 1 4096) in
     if err \<noteq> 0 then fail ''Error configuring the number of vCPUs and/or the amount of RAM'' err p3
     else let (err, p4) = api h p3 (Krun_set_root ctx_id (argv ! 1)) in
     if err \<noteq> 0 then fail ''Error configuring root path'' err p4
     else let p5 = p4\<lparr>trace := trace p4 @ [Getcwd MAX_PATH]\<rparr> in
     case cwd h (trace p4) of
       None \<Rightarrow> fail ''Error getting current directory'' err p5
     | Some current_path \<Rightarrow>
        (let volume_len = length current_path + length volume_tail + 1;
             p6 = p5\<lparr>trace := trace p5 @ [Malloc volume_len]\<rparr>
         in if \<not> malloc_ok h (trace p5) volume_len
            then (perror ''Error allocating memory for volume string'' (p6\<lparr>errno := - err\<rparr>),
                  Null_write)
            else configure_rest h argv ctx_id (current_path @ volume_tail) p6))"

text \<open>A host on which every call of the libkrun API succeeds, the current directory is
  \<^verbatim>\<open>/tmp\<close>, and \<^verbatim>\<open>malloc\<close> returns a null pointer; \<^verbatim>\<open>krun_start_enter\<close> as on \<open>h\<close>.\<close>

definition no_memory :: "host \<Rightarrow> host" where
  "no_memory h = h\<lparr>krun := \<lambda>tr c. 0, cwd := \<lambda>tr. Some ''/tmp'', malloc_ok := \<lambda>tr n. False\<rparr>"

text \<open>A kernel on which \<^verbatim>\<open>setrlimit(7, {10, 20})\<close> fails with \<^verbatim>\<open>EPERM\<close> (1) and every
  other call succeeds.\<close>

definition second_fails :: kernel where
  "second_fails tr c = (if c = Setrlimit 7 \<lparr>rlim_cur = 10, rlim_max = 20\<rparr> then - 1 else 0)"

section \<open>Resource-limit directives\<close>

subsection \<open>Well-formed strings\<close>

lemma fields_6_4096_8192: "rlimit_fields ''6=4096:8192'' = Fields 6 4096 8192 []"
  by code_simp

lemma fields_6_4096_8192_more:
  "rlimit_fields ''6=4096:8192;7=10:20'' = Fields 6 4096 8192 '';7=10:20''"
  by code_simp

lemma fields_7_10_20: "rlimit_fields ''7=10:20'' = Fields 7 10 20 []"
  by code_simp

text \<open>
  C4.  On \<^verbatim>\<open>"6=4096:8192"\<close> the loop reads the one directive (6, 4096, 8192), with
  nothing left after it, issues the one call \<^verbatim>\<open>setrlimit(6, {4096, 8192})\<close> and
  returns.  On \<^verbatim>\<open>"6=4096:8192;7=10:20"\<close> it issues that call and then
  \<^verbatim>\<open>setrlimit(7, {10, 20})\<close>, in this order, and returns.  This holds from every
  process state and whatever the kernel answers.
\<close>

theorem well_formed_directives_applied_in_order:
  "rlimit_fields ''6=4096:8192'' = Fields 6 4096 8192 []
   \<and> trace (fst (set_rlimits k p ''6=4096:8192''))
       = trace p @ [Setrlimit 6 \<lparr>rlim_cur = 4096, rlim_max = 8192\<rparr>]
   \<and> snd (set_rlimits k p ''6=4096:8192'') = Returned
   \<and> trace (fst (set_rlimits k p ''6=4096:8192;7=10:20''))
       = trace p @ [Setrlimit 6 \<lparr>rlim_cur = 4096, rlim_max = 8192\<rparr>,
                    Setrlimit 7 \<lparr>rlim_cur = 10, rlim_max = 20\<rparr>]
   \<and> snd (set_rlimits k p ''6=4096:8192;7=10:20'') = Returned"
proof -
  have one: "set_rlimits k p ''6=4096:8192'' = (apply_rlimit k p 6 4096 8192, Returned)"
    by (rule set_rlimits_last [OF fields_6_4096_8192])
  have two: "set_rlimits k p ''6=4096:8192;7=10:20''
      = (apply_rlimit k (apply_rlimit k p 6 4096 8192) 7 10 20, Returned)"
    by (simp only: set_rlimits_next [OF fields_6_4096_8192_more]
          set_rlimits_last [OF fields_7_10_20])
  show ?thesis
    by (simp add: one two trace_apply_rlimit fields_6_4096_8192)
qed

text \<open>
  The same for every list of directives written in the format: each number is read
  back as it was written, a soft or hard limit of \<^verbatim>\<open>ULLONG_MAX\<close> included, the calls
  are issued in the order of the list, and the loop returns at the end of the string.
  Only an id of \<^verbatim>\<open>ULLONG_MAX\<close> cannot be written this way.
\<close>

lemma digit_chars:
  "list_all (\<lambda>d. isdigit_c (char_of (48 + d)) \<and> digit_val (char_of (48 + d)) = d)
     [0, 1, 2, 3, 4, 5, 6, 7, 8, 9 :: int]"
  by code_simp

lemma digit_char:
  assumes "0 \<le> d" "d < 10"
  shows "isdigit_c (char_of (48 + d :: int)) \<and> digit_val (char_of (48 + d)) = d"
proof -
  from assms have "d \<in> set [0, 1, 2, 3, 4, 5, 6, 7, 8, 9 :: int]"
    by simp arith
  with digit_chars show ?thesis
    unfolding list_all_iff by blast
qed

lemma dec_digits_digits: "0 \<le> n \<Longrightarrow> list_all isdigit_c (dec_digits n) \<and> dec_digits n \<noteq> []"
proof (induction n rule: dec_digits.induct)
  case (1 n)
  show ?case
  proof (cases "n < 10")
    case True
    with 1 show ?thesis
      by (subst dec_digits.simps, subst (2) dec_digits.simps) (simp add: digit_char)
  next
    case False
    with 1 have "list_all isdigit_c (dec_digits (n div 10))"
      by simp
    moreover have "isdigit_c (char_of (48 + n mod 10))"
      by (rule digit_char [THEN conjunct1]) simp_all
    ultimately show ?thesis
      using False by (subst dec_digits.simps, subst (2) dec_digits.simps) simp
  qed
qed

lemma dec_digits_value: "0 \<le> n \<Longrightarrow> foldl (\<lambda>a c. 10 * a + digit_val c) 0 (dec_digits n) = n"
proof (induction n rule: dec_digits.induct)
  case (1 n)
  show ?case
  proof (cases "n < 10")
    case True
    with 1 show ?thesis
      by (subst dec_digits.simps) (simp add: digit_char)
  next
    case False
    with 1 have "foldl (\<lambda>a c. 10 * a + digit_val c) 0 (dec_digits (n div 10)) = n div 10"
      by simp
    moreover have "digit_val (char_of (48 + n mod 10)) = n mod 10"
      by (rule digit_char [THEN conjunct2]) simp_all
    ultimately show ?thesis
      using False by (subst dec_digits.simps) simp
  qed
qed

lemma digit_not_space_or_sign:
  "isdigit_c c \<Longrightarrow> \<not> isspace_c c \<and> c \<noteq> CHR ''-'' \<and> c \<noteq> CHR ''+''"
  by (auto simp: isdigit_c_def isspace_c_def)

lemma strtoull_dec_digits:
  assumes "0 \<le> n" and "n < 2 ^ 64" and "rest = [] \<or> \<not> isdigit_c (hd rest)"
  shows "strtoull (dec_digits n @ rest) = (word_of_int n, rest)"
proof -
  let ?ds = "dec_digits n"
  from dec_digits_digits [OF assms(1)] have all: "\<forall>c \<in> set ?ds. isdigit_c c" and ne: "?ds \<noteq> []"
    by (simp_all add: list_all_iff)
  from all ne have "isdigit_c (hd (?ds @ rest))"
    by (cases ?ds) simp_all
  then have hd: "\<not> isspace_c (hd (?ds @ rest))" "hd (?ds @ rest) \<noteq> CHR ''-''"
    "hd (?ds @ rest) \<noteq> CHR ''+''"
    using digit_not_space_or_sign by blast+
  from hd(1) ne have sp: "dropWhile isspace_c (?ds @ rest) = ?ds @ rest"
    by (cases ?ds) simp_all
  from assms(3) have tw: "takeWhile isdigit_c rest = []" and dw: "dropWhile isdigit_c rest = rest"
    by (cases rest; simp)+
  have t: "takeWhile isdigit_c (?ds @ rest) = ?ds"
    using all tw by (simp add: takeWhile_append2)
  have d: "dropWhile isdigit_c (?ds @ rest) = rest"
    using all dw by (simp add: dropWhile_append2)
  show ?thesis
    using hd ne assms(1,2)
    by (simp add: strtoull_def sp t d dec_digits_value Let_def)
qed

lemma strtoull_render_u64:
  assumes "rest = [] \<or> \<not> isdigit_c (hd rest)"
  shows "strtoull (render_u64 w @ rest) = (w, rest)"
proof -
  have "uint w < 2 ^ 64"
    using uint_bounded [of w] by simp
  then show ?thesis
    unfolding render_u64_def using strtoull_dec_digits [OF _ _ assms, of "uint w"] by simp
qed

lemma rlimit_fields_render:
  assumes "a \<noteq> ULLONG_MAX" and "rest = [] \<or> \<not> isdigit_c (hd rest)"
  shows "rlimit_fields (render_directive (a, b, c) @ rest) = Fields a b c rest"
proof -
  have nd: "\<not> isdigit_c (CHR ''='')" "\<not> isdigit_c (CHR '':'')"
    by (simp_all add: isdigit_c_def)
  have 1: "strtoull (render_u64 a @ CHR ''='' # render_u64 b @ CHR '':'' # render_u64 c @ rest)
      = (a, CHR ''='' # render_u64 b @ CHR '':'' # render_u64 c @ rest)"
    by (rule strtoull_render_u64) (simp add: nd)
  have 2: "strtoull (render_u64 b @ CHR '':'' # render_u64 c @ rest)
      = (b, CHR '':'' # render_u64 c @ rest)"
    by (rule strtoull_render_u64) (simp add: nd)
  have 3: "strtoull (render_u64 c @ rest) = (c, rest)"
    by (rule strtoull_render_u64) (rule assms(2))
  show ?thesis
    using assms(1) by (simp add: rlimit_fields_def render_directive_def 1 2 3)
qed

lemma wire_format_applied_in_order:
  assumes "ds \<noteq> []" and "list_all (\<lambda>d. fst d \<noteq> ULLONG_MAX) ds"
  shows "set_rlimits k p (wire_format ds) = (apply_all k p ds, Returned)"
  using assms
proof (induction ds arbitrary: p rule: wire_format.induct)
  case 1
  then show ?case by simp
next
  case (2 d)
  obtain a b c where d: "d = (a, b, c)"
    by (cases d)
  with 2 have "rlimit_fields (render_directive (a, b, c) @ []) = Fields a b c []"
    by (intro rlimit_fields_render) simp_all
  then show ?case
    by (simp add: d set_rlimits_last)
next
  case (3 d e ds)
  obtain a b c where d: "d = (a, b, c)"
    by (cases d)
  have "\<not> isdigit_c (CHR '';'')"
    by (simp add: isdigit_c_def)
  with 3 d have "rlimit_fields (render_directive (a, b, c) @ CHR '';'' # wire_format (e # ds))
      = Fields a b c (CHR '';'' # wire_format (e # ds))"
    by (intro rlimit_fields_render) simp_all
  then have "set_rlimits k p (wire_format (d # e # ds))
      = set_rlimits k (apply_rlimit k p a b c) (wire_format (e # ds))"
    by (simp add: d set_rlimits_next)
  also have "\<dots> = (apply_all k (apply_rlimit k p a b c) (e # ds), Returned)"
    using 3 by simp
  finally show ?case
    by (simp add: d)
qed

lemma wire_format_example:
  "wire_format [(6, 4096, 8192), (7, 10, 20)] = ''6=4096:8192;7=10:20''"
  by code_simp

lemma wire_format_stays_in_string:
  assumes "ds \<noteq> []" and "list_all (\<lambda>d. fst d \<noteq> ULLONG_MAX) ds"
  shows "stays_in_string (wire_format ds)"
  by (simp add: stays_in_string_def wire_format_applied_in_order [OF assms])

subsection \<open>A directive with no hard limit\<close>

lemma fields_6_4096: "rlimit_fields ''6=4096'' = Overrun"
  by code_simp

text \<open>
  C3.  On \<^verbatim>\<open>"6=4096"\<close> the id 6 and the soft limit 4096 are read, which leaves
  \<^verbatim>\<open>item\<close> on the terminating NUL; line 38 steps over it and the \<^verbatim>\<open>strtoull\<close> of
  line 39 reads beyond the string.  No call has been issued at that point.
\<close>

theorem missing_hard_limit_reads_past_string:
  "set_rlimits k p ''6=4096'' = (p, ReadPastNul)"
  by (rule set_rlimits_overrun [OF fields_6_4096])

subsection \<open>An id that stops the loop, and one that does not\<close>

text \<open>
  What the test of lines 31 to 33 achieves.  The loop goes through the text from left
  to right: a pass that reads a directive consumes at least two bytes and goes on, if
  at all, in the text after them.  When the loop has read the directives \<open>ds\<close> and
  the id at the head of the remaining text \<open>r\<close> is read by \<^verbatim>\<open>strtoull\<close> as
  \<^verbatim>\<open>ULLONG_MAX\<close>, it prints \<^verbatim>\<open>Invalid rlimit ID\<close> and returns: the calls issued are
  those for \<open>ds\<close> and no other, whatever follows in \<open>r\<close>.
\<close>

lemma invalid_id_stops_the_loop:
  "(directives_then s ds r \<and> fst (strtoull r) = ULLONG_MAX \<longrightarrow>
      set_rlimits k p s = (printf (''Invalid rlimit ID'' @ [CHR 0x0A]) (apply_all k p ds), Returned)
      \<and> trace (fst (set_rlimits k p s)) = trace p @ map setrlimit_of ds)
   \<and> (rlimit_fields s = Fields a b c rest \<longrightarrow> (\<exists>used. s = used @ rest \<and> 2 \<le> length used))"
proof (intro conjI impI)
  assume h: "directives_then s ds r \<and> fst (strtoull r) = ULLONG_MAX"
  then have "rlimit_fields r = Invalid_id"
    by (simp add: rlimit_fields_invalid_iff)
  then have "set_rlimits k (apply_all k p ds) r
      = (printf (''Invalid rlimit ID'' @ [CHR 0x0A]) (apply_all k p ds), Returned)"
    by (rule set_rlimits_invalid)
  with h show eq: "set_rlimits k p s
      = (printf (''Invalid rlimit ID'' @ [CHR 0x0A]) (apply_all k p ds), Returned)"
    using set_rlimits_directives_then [of s ds r k p] by simp
  show "trace (fst (set_rlimits k p s)) = trace p @ map setrlimit_of ds"
    by (simp add: eq printf_def trace_apply_all)
next
  assume "rlimit_fields s = Fields a b c rest"
  then show "\<exists>used. s = used @ rest \<and> 2 \<le> length used"
    by (rule rlimit_fields_consumed)
qed

lemma fields_6_1_2_more: "rlimit_fields ''6=1:2;99999999999999999999=3:4;7=1:1'' = Fields 6 1 2 '';99999999999999999999=3:4;7=1:1''"
  by code_simp

lemma id_out_of_range: "fst (strtoull ''99999999999999999999=3:4;7=1:1'') = ULLONG_MAX"
  by code_simp

lemma invalid_id_stops_the_loop_example:
  "directives_then ''6=1:2;99999999999999999999=3:4;7=1:1'' [(6, 1, 2)] ''99999999999999999999=3:4;7=1:1''
   \<and> fst (strtoull ''99999999999999999999=3:4;7=1:1'') = ULLONG_MAX
   \<and> trace (fst (set_rlimits (\<lambda>tr c. 0) proc0 ''6=1:2;99999999999999999999=3:4;7=1:1''))
       = [Setrlimit 6 \<lparr>rlim_cur = 1, rlim_max = 2\<rparr>]
   \<and> console (fst (set_rlimits (\<lambda>tr c. 0) proc0 ''6=1:2;99999999999999999999=3:4;7=1:1''))
       = [Printf (''Invalid rlimit ID'' @ [CHR 0x0A])]
   \<and> rlimit_fields ''6=1:2;99999999999999999999=3:4;7=1:1'' = Fields 6 1 2 '';99999999999999999999=3:4;7=1:1''
   \<and> (\<exists>used. ''6=1:2;99999999999999999999=3:4;7=1:1'' = used @ '';99999999999999999999=3:4;7=1:1'' \<and> 2 \<le> length used)"
proof -
  have d: "directives_then ''6=1:2;99999999999999999999=3:4;7=1:1'' [(6, 1, 2)] ''99999999999999999999=3:4;7=1:1''"
    by (simp add: fields_6_1_2_more)
  note t = invalid_id_stops_the_loop [of "''6=1:2;99999999999999999999=3:4;7=1:1''" "[(6, 1, 2)]"
      "''99999999999999999999=3:4;7=1:1''" "\<lambda>tr c. 0" proc0 6 1 2 "'';99999999999999999999=3:4;7=1:1''"]
  from t d id_out_of_range fields_6_1_2_more show ?thesis
    by (simp add: setrlimit_of_def proc0_def printf_def apply_rlimit_def invoke_def)
qed

lemma fields_abc: "rlimit_fields ''abc=1:2'' = Fields 0 0 0 ''c=1:2''"
  by code_simp

lemma fields_eq_1_2: "rlimit_fields ''=1:2'' = Fields 0 1 2 []"
  by code_simp

lemma strtoull_abc: "strtoull ''abc=1:2'' = (0, ''abc=1:2'')"
  by code_simp

text \<open>
  C2.  Line 28 presets \<^verbatim>\<open>ULLONG_MAX\<close> and lines 31 to 33 test for it and print
  \<^verbatim>\<open>Invalid rlimit ID\<close>, but \<^verbatim>\<open>strtoull\<close> gives that value only for a number out of
  range.  An id with no digit is read as 0 with nothing consumed, and the loop is not
  left: on \<^verbatim>\<open>"abc=1:2"\<close> the malformed id \<^verbatim>\<open>abc\<close> is not rejected, the loop calls
  \<^verbatim>\<open>setrlimit(0, {0, 0})\<close> and \<^verbatim>\<open>setrlimit(0, {1, 2})\<close> from the text at and after it,
  prints nothing and returns.
\<close>

theorem malformed_id_is_not_rejected:
  "strtoull ''abc=1:2'' = (0, ''abc=1:2'')
   \<and> set_rlimits (\<lambda>tr c. 0) proc0 ''abc=1:2''
     = (\<lparr>trace = [Setrlimit 0 \<lparr>rlim_cur = 0, rlim_max = 0\<rparr>,
                  Setrlimit 0 \<lparr>rlim_cur = 1, rlim_max = 2\<rparr>],
         errno = 0, console = []\<rparr>, Returned)"
  by (simp add: strtoull_abc set_rlimits_next [OF fields_abc] set_rlimits_last [OF fields_eq_1_2]
      apply_rlimit_def invoke_def proc0_def)

subsection \<open>An id with no digit\<close>

lemma strtoull_no_digit:
  assumes "\<forall>c \<in> set idf. \<not> isdigit_c c"
  shows "strtoull (idf @ CHR ''='' # rest) = (0, idf @ CHR ''='' # rest)"
proof -
  let ?whole = "idf @ CHR ''='' # rest"
  let ?s = "dropWhile isspace_c ?whole"
  let ?t = "if ?s \<noteq> [] \<and> (hd ?s = CHR ''-'' \<or> hd ?s = CHR ''+'') then tl ?s else ?s"
  let ?u = "dropWhile isspace_c idf"
  have eq: "\<not> isspace_c (CHR ''='')" "\<not> isdigit_c (CHR ''='')"
    by (simp_all add: isspace_c_def isdigit_c_def)
  have s: "?s = ?u @ CHR ''='' # rest"
    using eq by (simp add: dropWhile_append)
  have u: "\<forall>c \<in> set ?u. \<not> isdigit_c c"
    using assms by (meson set_dropWhileD)
  obtain u' where t: "?t = u' @ CHR ''='' # rest" and u': "\<forall>c \<in> set u'. \<not> isdigit_c c"
  proof (cases ?u)
    case Nil
    with s have "?t = [] @ CHR ''='' # rest"
      by simp
    then show ?thesis
      using that by force
  next
    case (Cons x xs)
    with s have "?t = (if x = CHR ''-'' \<or> x = CHR ''+'' then xs else x # xs) @ CHR ''='' # rest"
      by simp
    moreover have "\<forall>c \<in> set (if x = CHR ''-'' \<or> x = CHR ''+'' then xs else x # xs). \<not> isdigit_c c"
      using u Cons by simp
    ultimately show ?thesis
      using that by blast
  qed
  have "\<not> isdigit_c (hd ?t)"
    unfolding t using u' eq by (cases u') simp_all
  then have "takeWhile isdigit_c ?t = []"
    by (simp only: takeWhile_eq_Nil_iff) blast
  then show ?thesis
    by (simp add: strtoull_def Let_def)
qed

lemma strtoull_stops_before:
  assumes "x \<in> set s" "\<not> isspace_c x" "x \<noteq> CHR ''-''" "x \<noteq> CHR ''+''" "\<not> isdigit_c x"
  shows "snd (strtoull s) \<noteq> []"
proof
  assume "snd (strtoull s) = []"
  with strtoull_consumed [of s]
  have "list_all (\<lambda>c. isspace_c c \<or> c = CHR ''-'' \<or> c = CHR ''+'' \<or> isdigit_c c) s"
    by auto
  with assms show False
    by (auto simp: list_all_iff)
qed

lemma non_numeric_id_fields:
  assumes "\<forall>c \<in> set idf. \<not> isdigit_c c"
  shows "\<exists>cur max more.
    rlimit_fields (idf @ ''='' @ soft @ '':'' @ rest) = Fields 0 cur max more"
proof -
  let ?s = "idf @ ''='' @ soft @ '':'' @ rest"
  have s0: "strtoull ?s = (0, ?s)"
    using strtoull_no_digit [OF assms, of "soft @ '':'' @ rest"] by simp
  obtain c i2 where s: "?s = c # i2" and colon: "CHR '':'' \<in> set i2"
    by (cases idf) auto
  have "snd (strtoull i2) \<noteq> []"
    by (rule strtoull_stops_before [OF colon]) (simp_all add: isspace_c_def isdigit_c_def)
  then obtain b c2 i4 where s2: "strtoull i2 = (b, c2 # i4)"
    by (cases "strtoull i2"; cases "snd (strtoull i2)") auto
  have "rlimit_fields ?s = Fields 0 b (fst (strtoull i4)) (snd (strtoull i4))"
    unfolding rlimit_fields_def s0 using s s2
    by (simp add: ULLONG_MAX_def split: prod.splits)
  then show ?thesis
    by blast
qed

text \<open>
  C10.  The pass through the loop body ends at line 33 exactly when \<^verbatim>\<open>strtoull\<close>
  gives \<^verbatim>\<open>ULLONG_MAX\<close> for the id.  For a directive \<^verbatim>\<open>id=soft:hard\<close> whose id
  field has no digit, \<^verbatim>\<open>strtoull\<close> gives 0 and consumes nothing, the loop is not
  left, the two \<^verbatim>\<open>item++\<close> and the two other \<^verbatim>\<open>strtoull\<close> go on from where
  \<^verbatim>\<open>item\<close> stands, and \<^verbatim>\<open>setrlimit\<close> is called with resource 0.
\<close>

theorem non_numeric_id_is_resource_0:
  "(rlimit_fields s = Invalid_id) = (fst (strtoull s) = ULLONG_MAX)
   \<and> ((\<forall>c \<in> set idf. \<not> isdigit_c c) \<longrightarrow>
        strtoull (idf @ ''='' @ soft @ '':'' @ rest) = (0, idf @ ''='' @ soft @ '':'' @ rest)
        \<and> (\<exists>cur max cs.
             trace (fst (set_rlimits k p (idf @ ''='' @ soft @ '':'' @ rest)))
               = trace p @ Setrlimit 0 \<lparr>rlim_cur = cur, rlim_max = max\<rparr> # cs))"
proof (intro conjI impI)
  show "(rlimit_fields s = Invalid_id) = (fst (strtoull s) = ULLONG_MAX)"
    by (rule rlimit_fields_invalid_iff)
next
  assume nd: "\<forall>c \<in> set idf. \<not> isdigit_c c"
  show "strtoull (idf @ ''='' @ soft @ '':'' @ rest) = (0, idf @ ''='' @ soft @ '':'' @ rest)"
    using strtoull_no_digit [OF nd, of "soft @ '':'' @ rest"] by simp
  let ?s = "idf @ ''='' @ soft @ '':'' @ rest"
  from non_numeric_id_fields [OF nd] obtain cur max more
    where f: "rlimit_fields ?s = Fields 0 cur max more"
    by blast
  let ?q = "apply_rlimit k p 0 cur max"
  have q: "trace ?q = trace p @ [Setrlimit 0 \<lparr>rlim_cur = cur, rlim_max = max\<rparr>]"
    by (simp add: trace_apply_rlimit)
  have "\<exists>cs. trace (fst (set_rlimits k p ?s)) = trace ?q @ cs"
  proof (cases more)
    case Nil
    with f show ?thesis
      by (simp add: set_rlimits_last)
  next
    case (Cons d r)
    with f have "set_rlimits k p ?s = set_rlimits k ?q r"
      by (simp add: set_rlimits_next)
    then show ?thesis
      using set_rlimits_extends [of k ?q r] by auto
  qed
  then show "\<exists>cur max cs. trace (fst (set_rlimits k p ?s))
      = trace p @ Setrlimit 0 \<lparr>rlim_cur = cur, rlim_max = max\<rparr> # cs"
    unfolding q by auto
qed

lemma fields_x_1_2: "rlimit_fields ''x=1:2'' = Fields 0 0 1 '':2''"
  by code_simp

lemma fields_2: "rlimit_fields ''2'' = Overrun"
  by code_simp

theorem non_numeric_id_is_resource_0_witness:
  "\<not> isdigit_c (CHR ''x'')
   \<and> strtoull ''x=1:2'' = (0, ''x=1:2'')
   \<and> trace (fst (set_rlimits (\<lambda>tr c. 0) proc0 ''x=1:2'')) = [Setrlimit 0 \<lparr>rlim_cur = 0, rlim_max = 1\<rparr>]"
proof -
  have nd: "\<forall>c \<in> set ''x''. \<not> isdigit_c c"
    by (simp add: isdigit_c_def)
  note t = non_numeric_id_is_resource_0 [of "[]" "''x''" "''1''" "''2''" "\<lambda>tr c. 0" proc0]
  have tr: "trace (fst (set_rlimits (\<lambda>tr c. 0) proc0 ''x=1:2'')) = [Setrlimit 0 \<lparr>rlim_cur = 0, rlim_max = 1\<rparr>]"
    by (simp add: set_rlimits_next [OF fields_x_1_2] set_rlimits_overrun [OF fields_2] trace_apply_rlimit proc0_def)
  from t nd tr show ?thesis
    by simp
qed

subsection \<open>A call that fails\<close>

text \<open>
  C5.  Let the loop have read the directives \<open>ds\<close> from the string \<open>s\<close> and stand at
  \<open>item\<close>, let it read there a directive with more text after it, and let the
  \<^verbatim>\<open>setrlimit\<close> call for that directive fail.  Then the line
  \<^verbatim>\<open>Error setting rlimit for ID=...\<close> is printed and the loop goes on: when the next
  directive can be read too, its \<^verbatim>\<open>setrlimit\<close> call is the next call issued.
  \<^verbatim>\<open>set_rlimits\<close> has no exit of the process, and the way it ends is the one it has
  when every call succeeds.
\<close>

theorem failed_setrlimit_is_logged_and_next_directive_attempted:
  assumes "directives_then s ds item"
      and "rlimit_fields item = Fields i1 c1 m1 (d # rest)"
      and "rlimit_fields rest = Fields i2 c2 m2 rest'"
      and "fst (invoke k (apply_all k p ds) (Setrlimit (ucast i1) \<lparr>rlim_cur = c1, rlim_max = m1\<rparr>)) \<noteq> 0"
  shows "\<exists>cs ls.
      trace (fst (set_rlimits k p s))
        = trace p @ map setrlimit_of ds
            @ Setrlimit (ucast i1) \<lparr>rlim_cur = c1, rlim_max = m1\<rparr>
            # Setrlimit (ucast i2) \<lparr>rlim_cur = c2, rlim_max = m2\<rparr> # cs
      \<and> console (fst (set_rlimits k p s))
        = console (apply_all k p ds)
            @ Printf (''Error setting rlimit for ID='' @ fmt_lld (sint i1) @ [CHR 0x0A]) # ls
      \<and> snd (set_rlimits k p s) = snd (set_rlimits (\<lambda>tr c. 0) p s)"
proof -
  let ?p = "apply_all k p ds"
  let ?q1 = "apply_rlimit k ?p i1 c1 m1"
  let ?q2 = "apply_rlimit k ?q1 i2 c2 m2"
  let ?line = "Printf (''Error setting rlimit for ID='' @ fmt_lld (sint i1) @ [CHR 0x0A])"
  have start: "set_rlimits k p s = set_rlimits k ?p item"
    by (rule set_rlimits_directives_then [OF assms(1)])
  have first: "set_rlimits k ?p item = set_rlimits k ?q1 rest"
    by (rule set_rlimits_next [OF assms(2)])
  have t2: "trace ?q2 = trace p @ map setrlimit_of ds
      @ [Setrlimit (ucast i1) \<lparr>rlim_cur = c1, rlim_max = m1\<rparr>,
         Setrlimit (ucast i2) \<lparr>rlim_cur = c2, rlim_max = m2\<rparr>]"
    by (simp add: trace_apply_rlimit trace_apply_all)
  have c1: "console ?q1 = console ?p @ [?line]"
    using assms(4) by (simp add: console_apply_rlimit)
  obtain l2 where c2: "console ?q2 = console ?p @ ?line # l2"
    using c1 by (simp add: console_apply_rlimit [of k ?q1])
  have "\<exists>cs ls. trace (fst (set_rlimits k ?q1 rest)) = trace ?q2 @ cs
      \<and> console (fst (set_rlimits k ?q1 rest)) = console ?q2 @ ls"
  proof (cases rest')
    case Nil
    with assms(3) show ?thesis
      by (simp add: set_rlimits_last)
  next
    case (Cons e r)
    with assms(3) have "set_rlimits k ?q1 rest = set_rlimits k ?q2 r"
      by (simp add: set_rlimits_next)
    then show ?thesis
      using set_rlimits_extends [of k ?q2 r] by auto
  qed
  then obtain cs ls where "trace (fst (set_rlimits k p s)) = trace ?q2 @ cs"
    "console (fst (set_rlimits k p s)) = console ?q2 @ ls"
    using start first by auto
  then have "trace (fst (set_rlimits k p s))
        = trace p @ map setrlimit_of ds
            @ Setrlimit (ucast i1) \<lparr>rlim_cur = c1, rlim_max = m1\<rparr>
            # Setrlimit (ucast i2) \<lparr>rlim_cur = c2, rlim_max = m2\<rparr> # cs"
    "console (fst (set_rlimits k p s)) = console ?p @ ?line # (l2 @ ls)"
    using t2 c2 by simp_all
  moreover have "snd (set_rlimits k p s) = snd (set_rlimits (\<lambda>tr c. 0) p s)"
    by (rule set_rlimits_flow_independent)
  ultimately show ?thesis
    by blast
qed

lemma fields_6_7_8:
  "rlimit_fields ''6=4096:8192;7=10:20;8=1:2'' = Fields 6 4096 8192 '';7=10:20;8=1:2''"
  by code_simp

lemma fields_7_8: "rlimit_fields ''7=10:20;8=1:2'' = Fields 7 10 20 '';8=1:2''"
  by code_simp

lemma fields_8: "rlimit_fields ''8=1:2'' = Fields 8 1 2 []"
  by code_simp

lemma fmt_lld_7: "fmt_lld 7 = ''7''"
  by code_simp


theorem failed_setrlimit_is_logged_and_next_directive_attempted_witness:
  "directives_then ''6=4096:8192;7=10:20;8=1:2'' [(6, 4096, 8192)] ''7=10:20;8=1:2''
   \<and> rlimit_fields ''7=10:20;8=1:2'' = Fields 7 10 20 '';8=1:2''
   \<and> rlimit_fields ''8=1:2'' = Fields 8 1 2 []
   \<and> fst (invoke second_fails (apply_all second_fails proc0 [(6, 4096, 8192)])
        (Setrlimit 7 \<lparr>rlim_cur = 10, rlim_max = 20\<rparr>)) \<noteq> 0
   \<and> (\<exists>cs ls.
        trace (fst (set_rlimits second_fails proc0 ''6=4096:8192;7=10:20;8=1:2''))
          = [Setrlimit 6 \<lparr>rlim_cur = 4096, rlim_max = 8192\<rparr>,
             Setrlimit 7 \<lparr>rlim_cur = 10, rlim_max = 20\<rparr>,
             Setrlimit 8 \<lparr>rlim_cur = 1, rlim_max = 2\<rparr>] @ cs
        \<and> console (fst (set_rlimits second_fails proc0 ''6=4096:8192;7=10:20;8=1:2''))
          = Printf (''Error setting rlimit for ID=7'' @ [CHR 0x0A]) # ls)"
proof -
  have d: "directives_then ''6=4096:8192;7=10:20;8=1:2'' [(6, 4096, 8192)] ''7=10:20;8=1:2''"
    by (simp add: fields_6_7_8)
  have f2: "rlimit_fields ''7=10:20;8=1:2'' = Fields 7 10 20 (CHR '';'' # ''8=1:2'')"
    using fields_7_8 by simp
  have fails: "fst (invoke second_fails (apply_all second_fails proc0 [(6, 4096, 8192)])
        (Setrlimit (ucast (7 :: u64)) \<lparr>rlim_cur = 10, rlim_max = 20\<rparr>)) \<noteq> 0"
    by (simp add: invoke_def second_fails_def)
  have c0: "console (apply_rlimit second_fails proc0 6 4096 8192) = []"
    by (simp add: console_apply_rlimit invoke_def second_fails_def proc0_simps)
  have "\<exists>cs ls.
      trace (fst (set_rlimits second_fails proc0 ''6=4096:8192;7=10:20;8=1:2''))
        = trace (proc0 :: syscall proc) @ map setrlimit_of [(6, 4096, 8192)]
            @ Setrlimit (ucast (7 :: u64)) \<lparr>rlim_cur = 10, rlim_max = 20\<rparr>
            # Setrlimit (ucast (8 :: u64)) \<lparr>rlim_cur = 1, rlim_max = 2\<rparr> # cs
      \<and> console (fst (set_rlimits second_fails proc0 ''6=4096:8192;7=10:20;8=1:2''))
        = console (apply_all second_fails proc0 [(6, 4096, 8192)])
            @ Printf (''Error setting rlimit for ID='' @ fmt_lld (sint (7 :: u64)) @ [CHR 0x0A]) # ls
      \<and> snd (set_rlimits second_fails proc0 ''6=4096:8192;7=10:20;8=1:2'')
        = snd (set_rlimits (\<lambda>tr c. 0) proc0 ''6=4096:8192;7=10:20;8=1:2'')"
    by (rule failed_setrlimit_is_logged_and_next_directive_attempted [OF d f2 fields_8 fails])
  then have "\<exists>cs ls.
        trace (fst (set_rlimits second_fails proc0 ''6=4096:8192;7=10:20;8=1:2''))
          = [Setrlimit 6 \<lparr>rlim_cur = 4096, rlim_max = 8192\<rparr>,
             Setrlimit 7 \<lparr>rlim_cur = 10, rlim_max = 20\<rparr>,
             Setrlimit 8 \<lparr>rlim_cur = 1, rlim_max = 2\<rparr>] @ cs
        \<and> console (fst (set_rlimits second_fails proc0 ''6=4096:8192;7=10:20;8=1:2''))
          = Printf (''Error setting rlimit for ID=7'' @ [CHR 0x0A]) # ls"
    by (simp add: fmt_lld_7 c0 setrlimit_of_def proc0_simps)
  with d fields_7_8 fields_8 fails show ?thesis
    by simp
qed

section \<open>The guest init as a whole\<close>

subsection \<open>\<^verbatim>\<open>execv\<close> comes back\<close>

text \<open>
  C1.  The scenario of the specification: \<^verbatim>\<open>KRUN_INIT=/nonexistent\<close>, the mount of
  \<^verbatim>\<open>/proc\<close> succeeds and \<^verbatim>\<open>execve\<close> fails.  Whatever the other calls do and whatever
  the arguments are, the last call is the \<^verbatim>\<open>execve\<close> of \<^verbatim>\<open>/nonexistent\<close>, nothing has
  been written to the console, and \<^verbatim>\<open>main\<close> returns 0: the process ends with exit status
  0.  The code has no test of the return of \<^verbatim>\<open>execv\<close>.
\<close>

theorem failed_exec_exits_0:
  "snd (init_main (exec_enoent k) [''KRUN_INIT=/nonexistent''] (a # args)) = Exit 0
   \<and> exit_status 0 = 0
   \<and> console (fst (init_main (exec_enoent k) [''KRUN_INIT=/nonexistent''] (a # args))) = []
   \<and> last (trace (fst (init_main (exec_enoent k) [''KRUN_INIT=/nonexistent''] (a # args))))
       = Execve ''/nonexistent'' (''/nonexistent'' # args) [''KRUN_INIT=/nonexistent'']"
proof -
  let ?k = "exec_enoent k"
  let ?env = "[''KRUN_INIT=/nonexistent'']"
  let ?p = "change_dir ?k ?env (fst (apply_rlimits ?k ?env (early_setup ?k ?env (snd (mount_proc ?k proc0)))))"
  have m: "0 \<le> ?k [] proc_mount"
    by (simp add: exec_enoent_def proc_mount_def)
  have b: "rlimits_in_bounds ?env"
    by (simp add: rlimits_in_bounds_def)
  have r: "resolve_init ?env = ''/nonexistent''"
    by (simp add: resolve_init_def)
  have main: "init_main ?k ?env (a # args) = exec_init ?k ?env (a # args) ?p"
    using m b by (rule init_main_reaches_exec)
  have x: "exec_init ?k ?env (a # args) ?p
      = (snd (invoke ?k ?p (Execve ''/nonexistent'' (''/nonexistent'' # args) ?env)), Exit 0)"
    by (simp add: exec_init_cons r exec_enoent_def)
  have c: "console ?p = []"
    by (simp add: console_steps apply_rlimits_def early_setup_def mount_proc_def console_invoke
        proc0_def)
  show ?thesis
    by (simp add: main x console_invoke c trace_invoke exit_status_def)
qed

subsection \<open>The one fatal step\<close>









subsection \<open>What is executed\<close>

text \<open>
  C8.  When \<^verbatim>\<open>main\<close> comes to line 107 (the mount has succeeded and \<^verbatim>\<open>set_rlimits\<close>
  has stayed inside its string), the program is the value of \<^verbatim>\<open>KRUN_INIT\<close> when the
  variable is set and \<^verbatim>\<open>/iwasm\<close> otherwise, and the last call of the process is
  \<^verbatim>\<open>execve\<close> of that path, with the argument vector of \<^verbatim>\<open>main\<close> whose element 0 has
  been replaced by the path, and with the environment the process was started with.
  When the call succeeds this is what replaces the process.
\<close>

theorem exec_gets_resolved_path_argv_and_environ:
  assumes "0 \<le> k [] proc_mount" and "rlimits_in_bounds env"
  shows "resolve_init env = (case getenv env ''KRUN_INIT'' of None \<Rightarrow> ''/iwasm'' | Some path \<Rightarrow> path)
    \<and> last (trace (fst (init_main k env (a # args))))
        = Execve (resolve_init env) ((a # args)[0 := resolve_init env]) env
    \<and> (snd (init_main k env (a # args))
          = Replaced (resolve_init env) ((a # args)[0 := resolve_init env]) env
        \<or> snd (init_main k env (a # args)) = Exit 0)"
proof -
  let ?p = "change_dir k env (fst (apply_rlimits k env (early_setup k env (snd (mount_proc k proc0)))))"
  have main: "init_main k env (a # args) = exec_init k env (a # args) ?p"
    using assms by (simp add: init_main_reaches_exec)
  have "resolve_init env = (case getenv env ''KRUN_INIT'' of None \<Rightarrow> ''/iwasm'' | Some path \<Rightarrow> path)"
    by (simp add: resolve_init_def DEFAULT_KRUN_INIT_def split: option.splits)
  moreover have "last (trace (fst (init_main k env (a # args))))
        = Execve (resolve_init env) ((a # args)[0 := resolve_init env]) env"
    by (simp add: main exec_init_cons trace_invoke)
  moreover have "snd (init_main k env (a # args))
          = Replaced (resolve_init env) ((a # args)[0 := resolve_init env]) env
        \<or> snd (init_main k env (a # args)) = Exit 0"
    by (simp add: main exec_init_cons)
  ultimately show ?thesis
    by blast
qed

theorem exec_gets_resolved_path_argv_and_environ_witness:
  "0 \<le> (\<lambda>tr c. 0 :: int) ([] :: syscall list) proc_mount
   \<and> rlimits_in_bounds [''KRUN_INIT=/bin/sh'', ''TEST=works'']
   \<and> resolve_init [''KRUN_INIT=/bin/sh'', ''TEST=works''] = ''/bin/sh''
   \<and> resolve_init [''TEST=works''] = ''/iwasm''
   \<and> last (trace (fst (init_main (\<lambda>tr c. 0) [''KRUN_INIT=/bin/sh'', ''TEST=works'']
        [''/init.krun'', ''-c'', ''true''])))
      = Execve ''/bin/sh'' [''/bin/sh'', ''-c'', ''true''] [''KRUN_INIT=/bin/sh'', ''TEST=works'']
   \<and> snd (init_main (\<lambda>tr c. 0) [''KRUN_INIT=/bin/sh'', ''TEST=works'']
        [''/init.krun'', ''-c'', ''true''])
      = Replaced ''/bin/sh'' [''/bin/sh'', ''-c'', ''true''] [''KRUN_INIT=/bin/sh'', ''TEST=works'']"
proof -
  let ?env = "[''KRUN_INIT=/bin/sh'', ''TEST=works'']"
  have m: "0 \<le> (\<lambda>tr c. 0 :: int) ([] :: syscall list) proc_mount"
    by simp
  have b: "rlimits_in_bounds ?env" "rlimits_in_bounds [''TEST=works'']"
    by (simp_all add: rlimits_in_bounds_def)
  note t1 = exec_gets_resolved_path_argv_and_environ
      [where k = "\<lambda>tr c. 0" and env = ?env and a = "''/init.krun''" and args = "[''-c'', ''true'']",
        OF m b(1)]
  note t2 = exec_gets_resolved_path_argv_and_environ
      [where k = "\<lambda>tr c. 0" and env = "[''TEST=works'']" and a = "''/init.krun''" and args = "[]",
        OF m b(2)]
  have r: "resolve_init ?env = ''/bin/sh''" "resolve_init [''TEST=works''] = ''/iwasm''"
    using t1 t2 by simp_all
  let ?p = "change_dir (\<lambda>tr c. 0) ?env (fst (apply_rlimits (\<lambda>tr c. 0) ?env
      (early_setup (\<lambda>tr c. 0) ?env (snd (mount_proc (\<lambda>tr c. 0) proc0)))))"
  have "init_main (\<lambda>tr c. 0) ?env [''/init.krun'', ''-c'', ''true'']
      = exec_init (\<lambda>tr c. 0) ?env [''/init.krun'', ''-c'', ''true''] ?p"
    using m b(1) by (rule init_main_reaches_exec)
  then have x: "snd (init_main (\<lambda>tr c. 0) ?env [''/init.krun'', ''-c'', ''true''])
      = Replaced ''/bin/sh'' [''/bin/sh'', ''-c'', ''true''] ?env"
    by (simp add: exec_init_cons r)
  from t1 r x b m show ?thesis
    by simp
qed

subsection \<open>Variables that are not set\<close>

text \<open>
  C9.  Each of the four variables on its own, whatever else is in the environment:
  without \<^verbatim>\<open>HOSTNAME\<close> the hostname step leaves the process state as it is and no
  \<^verbatim>\<open>sethostname\<close> is among the calls of \<^verbatim>\<open>main\<close>; the same for \<^verbatim>\<open>KRUN_RLIMITS\<close> and
  \<^verbatim>\<open>setrlimit\<close>, and for \<^verbatim>\<open>KRUN_WORKDIR\<close> and \<^verbatim>\<open>chdir\<close>; without \<^verbatim>\<open>KRUN_INIT\<close>
  the path is \<^verbatim>\<open>/iwasm\<close>, and an \<^verbatim>\<open>execve\<close> among the calls is of that path.
\<close>

theorem absent_variables_skip_their_steps:
  "(getenv env ''HOSTNAME'' = None \<longrightarrow>
      apply_hostname k env p = p
      \<and> (\<forall>h n. Sethostname h n \<notin> set (trace (fst (init_main k env argv)))))
   \<and> (getenv env ''KRUN_RLIMITS'' = None \<longrightarrow>
      apply_rlimits k env p = (p, Returned)
      \<and> (\<forall>r l. Setrlimit r l \<notin> set (trace (fst (init_main k env argv)))))
   \<and> (getenv env ''KRUN_WORKDIR'' = None \<longrightarrow>
      change_dir k env p = p
      \<and> (\<forall>w. Chdir w \<notin> set (trace (fst (init_main k env argv)))))
   \<and> (getenv env ''KRUN_INIT'' = None \<longrightarrow>
      resolve_init env = ''/iwasm''
      \<and> (\<forall>path av ev. Execve path av ev \<in> set (trace (fst (init_main k env argv)))
            \<longrightarrow> path = ''/iwasm'' \<and> hd av = ''/iwasm''))"
proof (intro conjI impI allI)
  assume "getenv env ''HOSTNAME'' = None"
  then show "apply_hostname k env p = p"
    by (simp add: apply_hostname_def)
next
  fix h n
  assume "getenv env ''HOSTNAME'' = None"
  then show "Sethostname h n \<notin> set (trace (fst (init_main k env argv)))"
    using init_main_calls [of "Sethostname h n" k env argv] by (auto simp: proc_mount_def)
next
  assume "getenv env ''KRUN_RLIMITS'' = None"
  then show "apply_rlimits k env p = (p, Returned)"
    by (simp add: apply_rlimits_def)
next
  fix r l
  assume "getenv env ''KRUN_RLIMITS'' = None"
  then show "Setrlimit r l \<notin> set (trace (fst (init_main k env argv)))"
    using init_main_calls [of "Setrlimit r l" k env argv] by (auto simp: proc_mount_def)
next
  assume "getenv env ''KRUN_WORKDIR'' = None"
  then show "change_dir k env p = p"
    by (simp add: change_dir_def)
next
  fix w
  assume "getenv env ''KRUN_WORKDIR'' = None"
  then show "Chdir w \<notin> set (trace (fst (init_main k env argv)))"
    using init_main_calls [of "Chdir w" k env argv] by (auto simp: proc_mount_def)
next
  assume "getenv env ''KRUN_INIT'' = None"
  then show "resolve_init env = ''/iwasm''"
    by (simp add: resolve_init_def DEFAULT_KRUN_INIT_def)
next
  fix path av ev
  assume none: "getenv env ''KRUN_INIT'' = None"
    and x: "Execve path av ev \<in> set (trace (fst (init_main k env argv)))"
  from none have r: "resolve_init env = ''/iwasm''"
    by (simp add: resolve_init_def DEFAULT_KRUN_INIT_def)
  from init_main_calls [OF x] show "path = ''/iwasm''"
    by (auto simp: proc_mount_def r)
  from init_main_calls [OF x] show "hd av = ''/iwasm''"
    by (auto simp: proc_mount_def r)
qed

theorem absent_variables_skip_their_steps_witness:
  "getenv [''TEST=works''] ''HOSTNAME'' = None
   \<and> getenv [''TEST=works''] ''KRUN_RLIMITS'' = None
   \<and> getenv [''TEST=works''] ''KRUN_WORKDIR'' = None
   \<and> getenv [''TEST=works''] ''KRUN_INIT'' = None
   \<and> apply_hostname (\<lambda>tr c. 0) [''TEST=works''] proc0 = proc0
   \<and> apply_rlimits (\<lambda>tr c. 0) [''TEST=works''] proc0 = (proc0, Returned)
   \<and> change_dir (\<lambda>tr c. 0) [''TEST=works''] proc0 = proc0
   \<and> resolve_init [''TEST=works''] = ''/iwasm''
   \<and> (\<forall>h n. Sethostname h n \<notin> set (trace (fst (init_main (\<lambda>tr c. 0) [''TEST=works''] [''/init.krun'']))))
   \<and> (\<forall>r l. Setrlimit r l \<notin> set (trace (fst (init_main (\<lambda>tr c. 0) [''TEST=works''] [''/init.krun'']))))
   \<and> (\<forall>w. Chdir w \<notin> set (trace (fst (init_main (\<lambda>tr c. 0) [''TEST=works''] [''/init.krun'']))))"
  using absent_variables_skip_their_steps
    [where env = "[''TEST=works'']" and k = "\<lambda>tr c. 0" and p = proc0 and argv = "[''/init.krun'']"]
  by simp

section \<open>The host launcher\<close>

text \<open>The error branches that end with \<^verbatim>\<open>return -1\<close> have printed a diagnostic.\<close>

lemma fail_reports: "snd (fail msg err p) = Return (- 1) \<and> console (fst (fail msg err p)) \<noteq> []"
  by (simp add: fail_def perror_def)

lemma configure_rest_reports:
  "snd (configure_rest h argv ctx volume p) = Return (- 1) \<Longrightarrow>
   console (fst (configure_rest h argv ctx volume p)) \<noteq> []"
  by (auto simp: configure_rest_def Let_def split_beta fail_reports split: if_splits)

lemma config_failure_is_reported:
  "snd (chroot_vm_main h argv) = Return (- 1) \<Longrightarrow> console (fst (chroot_vm_main h argv)) \<noteq> []"
  by (auto simp: chroot_vm_main_def Let_def split_beta fail_reports usage_def printf_def
      configure_rest_reports split: if_splits option.splits)

text \<open>
  C7.  A launch \<^verbatim>\<open>chroot_vm NEWROOT COMMAND [ARG...]\<close> in which the libkrun calls
  succeed and \<^verbatim>\<open>malloc\<close> fails: the diagnostic is printed, with \<^verbatim>\<open>errno\<close> set to 0,
  but \<^verbatim>\<open>main\<close> does not return \<^verbatim>\<open>-1\<close>.  It goes on to line 275, where \<^verbatim>\<open>snprintf\<close>
  writes through the null pointer; the steps from \<^verbatim>\<open>krun_set_mapped_volumes\<close> on
  are still in front of it.  Every other error branch of \<^verbatim>\<open>main\<close> ends with
  \<^verbatim>\<open>return -1\<close>.
\<close>

theorem failed_malloc_does_not_return:
  "chroot_vm_main (no_memory h) (prog # newroot # command # args)
     = (\<lparr>trace = [Krun_set_log_level 0, Krun_create_ctx, Krun_set_vm_config 0 1 4096,
                  Krun_set_root 0 newroot, Getcwd 4096, Malloc 11],
         errno = 0,
         console = [Perror ''Error allocating memory for volume string'' 0]\<rparr>,
        Null_write)"
  by (simp add: chroot_vm_main_def no_memory_def api_def proc0_def perror_def MAX_PATH_def
      volume_tail_def Let_def)

end
